theory Spec2Isabelle
  imports Complex_Main
begin

section \<open>Python values, errors and text conversions\<close>

text \<open>
  The controller of \<^verbatim>\<open>cubeviz/controls/slice.py\<close> keeps a slider, two text boxes and
  the layout's synced index consistent. Exceptions that leave a handler are values
  of \<open>py_error\<close>; a handler returns \<open>py_error + state\<close>. The \<open>ValueError\<close> of
  \<open>int()\<close> and \<open>float()\<close> is always caught by the source, so the conversions
  return an option and \<open>None\<close> stands for it.
\<close>

datatype py_error = TypeError | IndexError | ZeroDivisionError

datatype pyval = PyInt int | PyStr string

text \<open>Python's \<open>==\<close> between an int and a str: values of different types are never equal.\<close>

fun py_eq :: "pyval \<Rightarrow> pyval \<Rightarrow> bool" where
  "py_eq (PyInt a) (PyInt b) = (a = b)"
| "py_eq (PyStr a) (PyStr b) = (a = b)"
| "py_eq (PyInt a) (PyStr b) = False"
| "py_eq (PyStr a) (PyInt b) = False"

text \<open>
  \<open>int(text)\<close> on an ASCII string: surrounding whitespace (tab, line feed,
  vertical tab, form feed, carriage return and space, the characters 9 to 13 and
  32) is dropped, one sign is allowed, then decimal digits, with single underscores
  between digits.
\<close>

definition py_isspace :: "char \<Rightarrow> bool" where
  "py_isspace c = (of_char c \<in> {9, 10, 11, 12, 13, 32 :: nat})"

definition py_isdigit :: "char \<Rightarrow> bool" where
  "py_isdigit c = (48 \<le> (of_char c :: nat) \<and> (of_char c :: nat) \<le> 57)"

definition digit_val :: "char \<Rightarrow> nat" where
  "digit_val c = of_char c - 48"

definition py_strip :: "string \<Rightarrow> string" where
  "py_strip t = rev (dropWhile py_isspace (rev (dropWhile py_isspace t)))"

fun py_digits :: "nat \<Rightarrow> string \<Rightarrow> nat option" where
  "py_digits acc [] = Some acc"
| "py_digits acc [c] = (if py_isdigit c then Some (10 * acc + digit_val c) else None)"
| "py_digits acc (c # d # cs) =
     (if py_isdigit c then py_digits (10 * acc + digit_val c) (d # cs)
      else if c = CHR ''_'' \<and> py_isdigit d then py_digits (10 * acc + digit_val d) cs
      else None)"

definition py_int_body :: "string \<Rightarrow> nat option" where
  "py_int_body t =
     (case t of [] \<Rightarrow> None
      | c # cs \<Rightarrow> if py_isdigit c then py_digits (digit_val c) cs else None)"

definition py_int :: "string \<Rightarrow> int option" where
  "py_int t =
     (case py_strip t of
        [] \<Rightarrow> None
      | c # cs \<Rightarrow>
          if c = CHR ''+'' then map_option int (py_int_body cs)
          else if c = CHR ''-'' then map_option (\<lambda>n. - int n) (py_int_body cs)
          else map_option int (py_int_body (c # cs)))"

text \<open>\<open>str(n)\<close> for a Python int: decimal digits, with a minus sign for a negative one.\<close>

definition digit_char :: "nat \<Rightarrow> char" where
  "digit_char d = ''0123456789'' ! d"

fun str_nat :: "nat \<Rightarrow> string" where
  "str_nat n = (if n < 10 then [digit_char n] else str_nat (n div 10) @ [digit_char (n mod 10)])"

declare str_nat.simps [simp del]

definition py_str_int :: "int \<Rightarrow> string" where
  "py_str_int i = (if i < 0 then CHR ''-'' # str_nat (nat (- i)) else str_nat (nat i))"

section \<open>The numeric library the controller calls\<close>

text \<open>
  The wavelength axis is a one-dimensional numpy array of floats. A finite float is a
  real number; rounding, NaN and the infinities are not part of this model. The
  conversions between floats and text (\<open>float(text)\<close>, \<open>str(x)\<close>,
  \<open>fmt.format(x)\<close>) and numpy's \<open>argsort\<close> belong to Python and numpy, not to
  the controller, so the controller is modelled over a record of them: every
  operation takes the record, and what is proved holds for each choice of it.
\<close>

record ext =
  py_float :: "string \<Rightarrow> real option"
  py_str_float :: "real \<Rightarrow> string"
  py_format :: "string \<Rightarrow> real \<Rightarrow> string"
  np_argsort :: "real list \<Rightarrow> nat list"

text \<open>
  What numpy documents of \<open>argsort\<close>: the result lists every index of the array
  once, in an order along which the keys do not decrease. Its default
  \<open>kind='quicksort'\<close> is documented as not stable, so nothing is said about the
  order of indices with equal keys.
\<close>

definition is_argsort :: "real list \<Rightarrow> nat list \<Rightarrow> bool" where
  "is_argsort keys p =
     (length p = length keys \<and> distinct p \<and> list_all (\<lambda>i. i < length keys) p \<and>
      sorted (map (\<lambda>i. keys ! i) p))"

text \<open>\<open>abs(self._wavelengths - wavelength)\<close>: the array of absolute differences.\<close>

definition abs_diff :: "real list \<Rightarrow> real \<Rightarrow> real list" where
  "abs_diff ws w = map (\<lambda>x. \<bar>x - w\<bar>) ws"

text \<open>
  \<open>np.argsort(abs(self._wavelengths - wavelength))[0]\<close>. Before \<open>enable\<close> the axis
  is \<open>None\<close> and the subtraction raises TypeError; on an empty array the index
  \<open>[0]\<close> raises IndexError.
\<close>

definition nearest :: "ext \<Rightarrow> real list option \<Rightarrow> real \<Rightarrow> py_error + int" where
  "nearest E axis w =
     (case axis of
        None \<Rightarrow> Inl TypeError
      | Some ws \<Rightarrow>
          (case np_argsort E (abs_diff ws w) of
             [] \<Rightarrow> Inl IndexError
           | i # _ \<Rightarrow> Inr (int i)))"

text \<open>
  \<open>self._wavelengths[index]\<close>: \<open>None\<close> is not subscriptable, a negative index
  counts from the end, and an index out of range raises IndexError.
\<close>

definition np_getitem :: "real list option \<Rightarrow> int \<Rightarrow> py_error + real" where
  "np_getitem axis i =
     (case axis of
        None \<Rightarrow> Inl TypeError
      | Some ws \<Rightarrow>
          (let n = int (length ws); j = (if i < 0 then i + n else i)
           in if 0 \<le> j \<and> j < n then Inr (ws ! nat j) else Inl IndexError))"

text \<open>\<open>len(self._wavelengths)\<close>.\<close>

definition py_len :: "real list option \<Rightarrow> py_error + int" where
  "py_len axis = (case axis of None \<Rightarrow> Inl TypeError | Some ws \<Rightarrow> Inr (int (length ws)))"

section \<open>The state the controller reads and writes\<close>

text \<open>
  Modelled from the spec: the cube viewer widgets are code of the repository outside
  \<^verbatim>\<open>slice.py\<close>. A widget has its \<open>synced\<close> flag and receives
  \<open>update_slice_index(i)\<close> (a full redraw) or \<open>fast_draw_slice_at_index(i)\<close>
  (a fast one); the model records the calls a widget received, in order, and takes
  them to return normally.
\<close>

datatype draw = FullDraw int | FastDraw int

record widget =
  synced :: bool
  draws :: "draw list"

text \<open>
  The notifications sent through specviz's dispatch:
  \<open>changed_dispersion_position.emit(pos=...)\<close> and \<open>changed_units.emit(x=...)\<close>.
\<close>

datatype event = PositionChanged int | UnitsChanged "string list"

text \<open>
  One record holds the controller's attributes and the parts of the widgets and of
  the layout that it touches: the two text boxes (text, style sheet, enabled), the
  label, the slider (\<open>sl_min\<close>, \<open>sl_max\<close>, \<open>sl_value\<close>), the layout's
  \<open>synced_index\<close>, \<open>cube_views\<close>, \<open>_active_cube\<close>, \<open>_single_viewer_mode\<close> and
  \<open>_units_controller\<close> (\<open>None\<close> when there is none, else its \<open>redshift_z\<close>),
  whether the hub subscription of \<open>enable\<close> is in place, the number of datasets of
  the session's data collection, and the notifications emitted so far. Views are
  named by numbers and \<open>widgets\<close> gives the widget of each, so that the active view
  may be one of \<open>cube_views\<close>.
\<close>

record state =
  slice_text :: string
  slice_style :: string
  slice_enabled :: bool
  wl_text :: string
  wl_style :: string
  wl_enabled :: bool
  label_text :: string
  sl_min :: int
  sl_max :: int
  sl_value :: int
  sl_enabled :: bool
  slider_flag :: bool
  wavelength_label_text :: string
  wavelength_format :: string
  wavelength_units :: "string option"
  wavelengths :: "real list option"
  synced_index :: int
  cube_views :: "nat list"
  active_cube :: nat
  widgets :: "nat \<Rightarrow> widget"
  single_viewer_mode :: bool
  units_controller :: "real option"
  subscribed :: bool
  n_datasets :: nat
  emitted :: "event list"

definition RED_BACKGROUND :: string where
  "RED_BACKGROUND = ''background-color: rgba(255, 0, 0, 128);''"

section \<open>The operations of SliceController\<close>

text \<open>A call of one of the two drawing methods on the widget of view \<open>v\<close>.\<close>

definition draw_on :: "state \<Rightarrow> nat \<Rightarrow> draw \<Rightarrow> state" where
  "draw_on s v d = s\<lparr>widgets := (widgets s)(v := (widgets s v)\<lparr>draws := draws (widgets s v) @ [d]\<rparr>)\<rparr>"

definition emit :: "state \<Rightarrow> event \<Rightarrow> state" where
  "emit s e = s\<lparr>emitted := emitted s @ [e]\<rparr>"

text \<open>\<open>apply_to_viewers(index)\<close>, lines 178 to 200.\<close>

definition apply_to_viewers :: "state \<Rightarrow> int \<Rightarrow> state" where
  "apply_to_viewers s index =
     (let d = (if slider_flag s then FastDraw index else FullDraw index) in
      if synced (widgets s (active_cube s)) \<and> \<not> single_viewer_mode s then
        emit ((fold (\<lambda>v st. if synced (widgets st v) then draw_on st v d else st)
                 (cube_views s) s)\<lparr>synced_index := index\<rparr>)
          (PositionChanged index)
      else emit (draw_on s (active_cube s) d) (PositionChanged index))"

text \<open>
  The two \<open>try\<close> blocks of \<open>master_index_update\<close>: \<open>tb_index\<close> (lines 143 to 146)
  is the slice text box read as an int, and \<open>wv_index\<close> (lines 151 to 156) the index
  nearest to the wavelength text box read as a float; each is \<open>-1\<close> when the text
  does not parse.
\<close>

definition tb_index_of :: "state \<Rightarrow> int" where
  "tb_index_of s = (case py_int (slice_text s) of Some n \<Rightarrow> n | None \<Rightarrow> - 1)"

definition wv_index_of :: "ext \<Rightarrow> state \<Rightarrow> py_error + int" where
  "wv_index_of E s =
     (case py_float E (wl_text s) of
        None \<Rightarrow> Inr (- 1)
      | Some wavelength \<Rightarrow> nearest E (wavelengths s) wavelength)"

text \<open>
  The slider is Qt's: \<open>setValue\<close> bounds the value by the range and, when the value
  changes, emits \<open>valueChanged\<close>, which line 33 connects to \<open>_on_slider_change\<close>.
  That handler (lines 167 to 176) reads the value, builds the message from it and
  \<open>data_collection[0]\<close> and broadcasts it on the hub; the hub calls
  \<open>master_index_update\<close> (lines 140 to 165) once \<open>enable\<close> has subscribed it, and
  \<open>master_index_update\<close> may call \<open>setValue\<close> again. The three are one recursion.
\<close>

function master_index_update :: "ext \<Rightarrow> state \<Rightarrow> int \<Rightarrow> py_error + state"
  and slider_setValue :: "ext \<Rightarrow> state \<Rightarrow> int \<Rightarrow> py_error + state"
  and on_slider_change :: "ext \<Rightarrow> state \<Rightarrow> py_error + state"
where
  "master_index_update E s index =
     (let tb_index = tb_index_of s;
          s1 = (if tb_index \<noteq> index then s\<lparr>slice_text := py_str_int index\<rparr> else s)
      in case wv_index_of E s1 of
           Inl e \<Rightarrow> Inl e
         | Inr wv_index \<Rightarrow>
             (case (if index \<noteq> wv_index
                    then (case np_getitem (wavelengths s1) index of
                            Inl e \<Rightarrow> Inl e
                          | Inr w \<Rightarrow> Inr (s1\<lparr>wl_text := py_str_float E w\<rparr>))
                    else Inr s1) of
                Inl e \<Rightarrow> Inl e
              | Inr s2 \<Rightarrow>
                  (case (if sl_value s2 \<noteq> index then slider_setValue E s2 index else Inr s2) of
                     Inl e \<Rightarrow> Inl e
                   | Inr s3 \<Rightarrow> Inr (apply_to_viewers s3 index))))"
| "slider_setValue E s v =
     (let b = max (sl_min s) (min (sl_max s) v)
      in if b = sl_value s then Inr s else on_slider_change E (s\<lparr>sl_value := b\<rparr>))"
| "on_slider_change E s =
     (let index = sl_value s
      in if n_datasets s = 0 then Inl IndexError
         else if subscribed s then master_index_update E s index
         else Inr s)"
  by pat_completeness auto

termination
proof (relation "measure (\<lambda>x. case x of
          Inl (E, s, i) \<Rightarrow> (if sl_value s \<noteq> i then 3 else 0)
        | Inr (Inl (E, s, v)) \<Rightarrow> 2
        | Inr (Inr (E, s)) \<Rightarrow> 1)", goal_cases)
  case 1
  show ?case by simp
next
  case 2
  then show ?case by (auto split: if_splits sum.splits option.splits)
next
  case 3
  then show ?case by simp
next
  case 4
  then show ?case by simp
qed

declare master_index_update.simps [simp del] slider_setValue.simps [simp del]
  on_slider_change.simps [simp del]

text \<open>
  Qt's \<open>setRange\<close>, \<open>setMinimum\<close> and \<open>setMaximum\<close>: the range is kept valid, and
  when it changes the value is bounded again through \<open>setValue\<close>.
\<close>

definition slider_setRange :: "ext \<Rightarrow> state \<Rightarrow> int \<Rightarrow> int \<Rightarrow> py_error + state" where
  "slider_setRange E s mn mx =
     (let s' = s\<lparr>sl_min := mn, sl_max := max mn mx\<rparr>
      in if sl_min s \<noteq> mn \<or> sl_max s \<noteq> max mn mx then slider_setValue E s' (sl_value s')
         else Inr s')"

definition slider_setMinimum :: "ext \<Rightarrow> state \<Rightarrow> int \<Rightarrow> py_error + state" where
  "slider_setMinimum E s mn = slider_setRange E s mn (max (sl_max s) mn)"

definition slider_setMaximum :: "ext \<Rightarrow> state \<Rightarrow> int \<Rightarrow> py_error + state" where
  "slider_setMaximum E s mx = slider_setRange E s (min (sl_min s) mx) mx"

text \<open>\<open>'{} ({})'.format(label, units)\<close>; \<open>str(None)\<close> is \<open>None\<close>.\<close>

definition label_of :: "string \<Rightarrow> string option \<Rightarrow> string" where
  "label_of l u = l @ '' ('' @ (case u of None \<Rightarrow> ''None'' | Some t \<Rightarrow> t) @ '')''"

text \<open>The setter of \<open>wavelength_label\<close>, lines 65 to 76.\<close>

definition set_wavelength_label :: "state \<Rightarrow> string \<Rightarrow> state" where
  "set_wavelength_label s new_label =
     (let s1 = s\<lparr>wavelength_label_text := new_label\<rparr>
      in s1\<lparr>label_text := label_of (wavelength_label_text s1) (wavelength_units s1)\<rparr>)"

text \<open>\<open>set_enabled(value)\<close>, lines 107 to 110.\<close>

definition set_enabled :: "state \<Rightarrow> bool \<Rightarrow> state" where
  "set_enabled s v = s\<lparr>sl_enabled := v, slice_enabled := v, wl_enabled := v\<rparr>"

text \<open>
  \<open>enable(wcs, wavelengths)\<close>, lines 78 to 105; \<open>units\<close> is \<open>str(wcs.wcs.cunit[2])\<close>.
\<close>

definition enable :: "ext \<Rightarrow> state \<Rightarrow> string \<Rightarrow> real list \<Rightarrow> py_error + state" where
  "enable E s units ws =
     (let s1 = (set_enabled s True)\<lparr>subscribed := True\<rparr>
      in case slider_setMinimum E s1 0 of
           Inl e \<Rightarrow> Inl e
         | Inr s2 \<Rightarrow>
             (let s3 = s2\<lparr>wavelength_units := Some units, wavelength_format := ''{:.3}''\<rparr>;
                  s4 = s3\<lparr>label_text := label_of (wavelength_label_text s3) (wavelength_units s3)\<rparr>;
                  s5 = s4\<lparr>wavelengths := Some ws\<rparr>
              in case py_len (wavelengths s5) of
                   Inl e \<Rightarrow> Inl e
                 | Inr n \<Rightarrow>
                     (case slider_setMaximum E s5 (n - 1) of
                        Inl e \<Rightarrow> Inl e
                      | Inr s6 \<Rightarrow>
                          (case py_len (wavelengths s6) of
                             Inl e \<Rightarrow> Inl e
                           | Inr m \<Rightarrow>
                               (let middle_index = m div 2
                                in case slider_setValue E s6 middle_index of
                                     Inl e \<Rightarrow> Inl e
                                   | Inr s7 \<Rightarrow>
                                       (case np_getitem (wavelengths s7) middle_index of
                                          Inl e \<Rightarrow> Inl e
                                        | Inr w \<Rightarrow>
                                            Inr (s7\<lparr>wl_text := py_format E (wavelength_format s7) w,
                                                    synced_index := middle_index\<rparr>)))))))"

text \<open>
  \<open>set_wavelengths(new_wavelengths, new_units)\<close>, lines 112 to 126;
  \<open>short_names\<close> is \<open>new_units.short_names\<close>.
\<close>

definition set_wavelengths :: "ext \<Rightarrow> state \<Rightarrow> real list \<Rightarrow> string list \<Rightarrow> py_error + state" where
  "set_wavelengths E s new_wavelengths short_names =
     (case short_names of
        [] \<Rightarrow> Inl IndexError
      | new_units_name # _ \<Rightarrow>
          (let s1 = s\<lparr>wavelength_units := Some new_units_name, wavelength_format := ''{:.3}''\<rparr>;
               s2 = s1\<lparr>label_text := label_of (wavelength_label_text s1) (wavelength_units s1)\<rparr>;
               s3 = s2\<lparr>wavelengths := Some new_wavelengths\<rparr>
           in case py_len (wavelengths s3) of
                Inl e \<Rightarrow> Inl e
              | Inr n \<Rightarrow>
                  (case slider_setMaximum E s3 (n - 1) of
                     Inl e \<Rightarrow> Inl e
                   | Inr s4 \<Rightarrow>
                       (case np_getitem (wavelengths s4) (synced_index s4) of
                          Inl e \<Rightarrow> Inl e
                        | Inr w \<Rightarrow>
                            Inr (emit (s4\<lparr>wl_text := py_format E (wavelength_format s4) w\<rparr>)
                                   (UnitsChanged short_names))))))"

text \<open>\<open>get_index\<close>, \<open>update_index\<close> and \<open>change_slider_value\<close>, lines 128 to 138.\<close>

definition get_index :: "state \<Rightarrow> int" where
  "get_index s = synced_index s"

definition update_index :: "ext \<Rightarrow> state \<Rightarrow> int \<Rightarrow> py_error + state" where
  "update_index E s index = slider_setValue E s index"

definition change_slider_value :: "ext \<Rightarrow> state \<Rightarrow> int \<Rightarrow> py_error + state" where
  "change_slider_value E s amount =
     (let new_index = sl_value s + amount
      in case slider_setValue E s new_index of
           Inl e \<Rightarrow> Inl e
         | Inr s1 \<Rightarrow> Inr (emit s1 (PositionChanged new_index)))"

text \<open>\<open>_on_slider_pressed\<close> and \<open>_on_slider_released\<close>, lines 202 to 240.\<close>

definition on_slider_pressed :: "state \<Rightarrow> state" where
  "on_slider_pressed s = s\<lparr>slider_flag := True\<rparr>"

definition on_slider_released :: "state \<Rightarrow> state" where
  "on_slider_released s =
     (let s1 = s\<lparr>slider_flag := False\<rparr>; index = sl_value s1 in
      if synced (widgets s1 (active_cube s1)) \<and> \<not> single_viewer_mode s1 then
        emit ((fold (\<lambda>v st. if synced (widgets st v) then draw_on st v (FullDraw index) else st)
                 (cube_views s1) s1)\<lparr>synced_index := index\<rparr>)
          (PositionChanged index)
      else emit (draw_on s1 (active_cube s1) (FullDraw index)) (PositionChanged index))"

text \<open>
  \<open>_update_slice_textboxes(message)\<close>, lines 243 to 256: its subscription is
  commented out, so nothing calls it.
\<close>

definition update_slice_textboxes :: "ext \<Rightarrow> state \<Rightarrow> int \<Rightarrow> py_error + state" where
  "update_slice_textboxes E s index =
     (let s1 = s\<lparr>slice_text := py_str_int index\<rparr>
      in case np_getitem (wavelengths s1) index of
           Inl e \<Rightarrow> Inl e
         | Inr w \<Rightarrow> Inr (s1\<lparr>wl_text := py_format E (wavelength_format s1) w\<rparr>))"

text \<open>\<open>_on_text_slice_change\<close>, lines 258 to 286.\<close>

definition on_text_slice_change :: "ext \<Rightarrow> state \<Rightarrow> py_error + state" where
  "on_text_slice_change E s =
     (case py_int (slice_text s) of
        None \<Rightarrow> Inr (s\<lparr>slice_style := RED_BACKGROUND\<rparr>)
      | Some index \<Rightarrow>
          (let s1 = s\<lparr>slice_style := []\<rparr>
           in if py_eq (PyInt index) (PyStr (slice_text s1)) then Inr s1
              else
                (case py_len (wavelengths s1) of
                   Inl e \<Rightarrow> Inl e
                 | Inr n \<Rightarrow>
                     (let index1 = (if index < 0 then 0 else index);
                          index2 = (if index1 > n - 1 then n - 1 else index1)
                      in slider_setValue E s1 index2))))"

text \<open>
  \<open>_on_text_wavelength_change(event, pos)\<close>, lines 288 to 312: \<open>pos\<close> is \<open>None\<close>
  when the text box calls it.
\<close>

definition on_text_wavelength_change :: "ext \<Rightarrow> state \<Rightarrow> real option \<Rightarrow> py_error + state" where
  "on_text_wavelength_change E s pos =
     (case (case pos of Some p \<Rightarrow> Some p | None \<Rightarrow> py_float E (wl_text s)) of
        None \<Rightarrow> Inr (s\<lparr>wl_style := RED_BACKGROUND\<rparr>)
      | Some wavelength \<Rightarrow>
          (case nearest E (wavelengths s) wavelength of
             Inl e \<Rightarrow> Inl e
           | Inr index \<Rightarrow> slider_setValue E (s\<lparr>wl_style := []\<rparr>) index))"

text \<open>
  \<open>specviz_wavelength_slider_change(event, pos)\<close>, lines 314 to 341. The division
  is Python's: by zero it raises, and \<open>None / x\<close> is a TypeError.
\<close>

definition rest_position :: "ext \<Rightarrow> state \<Rightarrow> real option \<Rightarrow> py_error + real option" where
  "rest_position E s pos =
     (case units_controller s of
        None \<Rightarrow> Inr pos
      | Some z \<Rightarrow>
          if \<not> z = 0 then
            (case pos of
               None \<Rightarrow> Inl TypeError
             | Some p \<Rightarrow>
                 if 1 + z = 0 then Inl ZeroDivisionError
                 else
                   (let rest_wavelength = p / (1 + z)
                    in case nearest E (wavelengths s) rest_wavelength of
                         Inl e \<Rightarrow> Inl e
                       | Inr i \<Rightarrow>
                           (case np_getitem (wavelengths s) i of
                              Inl e \<Rightarrow> Inl e
                            | Inr w \<Rightarrow> Inr (Some w))))
          else Inr pos)"

definition specviz_wavelength_slider_change :: "ext \<Rightarrow> state \<Rightarrow> real option \<Rightarrow> py_error + state" where
  "specviz_wavelength_slider_change E s pos =
     (let deactivate_flag = \<not> slider_flag s;
          s1 = (if slider_flag s then s else s\<lparr>slider_flag := True\<rparr>)
      in case rest_position E s1 pos of
           Inl e \<Rightarrow> Inl e
         | Inr pos' \<Rightarrow>
             (case on_text_wavelength_change E s1 pos' of
                Inl e \<Rightarrow> Inl e
              | Inr s2 \<Rightarrow> Inr (if deactivate_flag then s2\<lparr>slider_flag := False\<rparr> else s2)))"

section \<open>numpy's default argsort, for worked examples\<close>

text \<open>
  The theorems below hold for every \<open>ext\<close>. The worked examples need one, and take
  the sort that \<open>np.argsort\<close> runs by default on an array of doubles: the indirect
  introsort of numpy's \<^verbatim>\<open>npysort/quicksort.c.src\<close> (\<open>aquicksort\<close>), which
  partitions around the median of three while a part has more than 16 elements,
  sorts a smaller part by insertion, and falls back to the indirect heapsort of
  \<^verbatim>\<open>heapsort.c.src\<close> when its depth limit is used up. \<open>v\<close> is the array of keys
  and \<open>a\<close> the array of indices being permuted (\<open>tosort\<close>); positions are offsets
  into \<open>a\<close>. Where the C code relies on a sentinel to stop a scan, the model also
  stops at the end of the array.
\<close>

definition swap_at :: "nat list \<Rightarrow> nat \<Rightarrow> nat \<Rightarrow> nat list" where
  "swap_at a i j = (a[i := a ! j])[j := a ! i]"

text \<open>\<open>do ++p_i; while (v[*p_i] < vp)\<close> is \<open>scan_up\<close> from \<open>p_i + 1\<close>.\<close>

function scan_up :: "real list \<Rightarrow> nat list \<Rightarrow> real \<Rightarrow> nat \<Rightarrow> nat" where
  "scan_up v a vp i = (if i < length a \<and> v ! (a ! i) < vp then scan_up v a vp (Suc i) else i)"
  by pat_completeness auto

termination
  by (relation "measure (\<lambda>(v, a, vp, i). length a - i)") auto

declare scan_up.simps [simp del]

text \<open>\<open>do --p_j; while (vp < v[*p_j])\<close> is \<open>scan_down\<close> from \<open>p_j - 1\<close>.\<close>

fun scan_down :: "real list \<Rightarrow> nat list \<Rightarrow> real \<Rightarrow> nat \<Rightarrow> nat" where
  "scan_down v a vp 0 = 0"
| "scan_down v a vp (Suc j) = (if vp < v ! (a ! Suc j) then scan_down v a vp j else Suc j)"

lemma scan_up_ge: "i \<le> scan_up v a vp i"
proof (induction v a vp i rule: scan_up.induct)
  case (1 v a vp i)
  then show ?case
    by (subst scan_up.simps) auto
qed

lemma scan_down_le: "scan_down v a vp j \<le> j"
  by (induction j) auto

text \<open>The partition loop \<open>for (;;)\<close> of \<open>aquicksort\<close>; it returns the array and \<open>p_i\<close>.\<close>

function ploop :: "real list \<Rightarrow> nat list \<Rightarrow> real \<Rightarrow> nat \<Rightarrow> nat \<Rightarrow> nat list \<times> nat" where
  "ploop v a vp p_i p_j =
     (let p_i' = scan_up v a vp (Suc p_i); p_j' = scan_down v a vp (p_j - 1)
      in if p_i' \<ge> p_j' then (a, p_i') else ploop v (swap_at a p_i' p_j') vp p_i' p_j')"
  by pat_completeness auto

termination
proof (relation "measure (\<lambda>(v, a, vp, p_i, p_j). p_j - p_i)", goal_cases)
  case 1
  show ?case by simp
next
  case (2 v a vp p_i p_j x xa)
  have "Suc p_i \<le> x" using 2(1) scan_up_ge by simp
  moreover have "xa \<le> p_j - 1" using 2(2) scan_down_le by simp
  ultimately show ?case using 2(3) by simp
qed

declare ploop.simps [simp del]

text \<open>
  The insertion sort of positions \<open>p_l\<close> to \<open>p_r\<close>: \<open>ins_shift\<close> is the inner
  \<open>while (p_j > p_l && vp < v[*pk])\<close>, with \<open>pk = p_j - 1\<close>.
\<close>

fun ins_shift :: "real list \<Rightarrow> nat list \<Rightarrow> nat \<Rightarrow> real \<Rightarrow> nat \<Rightarrow> nat list \<times> nat" where
  "ins_shift v a p_l vp 0 = (a, 0)"
| "ins_shift v a p_l vp (Suc k) =
     (if Suc k > p_l \<and> vp < v ! (a ! k) then ins_shift v (a[Suc k := a ! k]) p_l vp k
      else (a, Suc k))"

function insertion :: "real list \<Rightarrow> nat list \<Rightarrow> nat \<Rightarrow> nat \<Rightarrow> nat \<Rightarrow> nat list" where
  "insertion v a p_l p_r p_i =
     (if p_i \<le> p_r then
        (let vi = a ! p_i; vp = v ! vi; (a', p_j) = ins_shift v a p_l vp p_i
         in insertion v (a'[p_j := vi]) p_l p_r (Suc p_i))
      else a)"
  by pat_completeness auto

termination
  by (relation "measure (\<lambda>(v, a, p_l, p_r, p_i). Suc p_r - p_i)") auto

declare insertion.simps [simp del]

text \<open>
  The indirect heapsort of \<open>n\<close> positions from \<open>p_l\<close>. The C code indexes the heap
  from 1 (\<open>a = tosort - 1\<close>); \<open>hget\<close> and \<open>hset\<close> are \<open>a[k]\<close> in that indexing.
  \<open>hsift\<close> is the inner loop \<open>for (...; j <= n;)\<close>, returning the array and \<open>i\<close>.
\<close>

definition hget :: "nat list \<Rightarrow> nat \<Rightarrow> nat \<Rightarrow> nat" where
  "hget a p_l k = a ! (p_l + k - 1)"

definition hset :: "nat list \<Rightarrow> nat \<Rightarrow> nat \<Rightarrow> nat \<Rightarrow> nat list" where
  "hset a p_l k x = a[p_l + k - 1 := x]"

function hsift :: "real list \<Rightarrow> nat list \<Rightarrow> nat \<Rightarrow> nat \<Rightarrow> nat \<Rightarrow> nat \<Rightarrow> nat \<Rightarrow> nat list \<times> nat" where
  "hsift v a p_l n tmp i j =
     (if 0 < j \<and> j \<le> n then
        (let j1 = (if j < n \<and> v ! hget a p_l j < v ! hget a p_l (j + 1) then j + 1 else j)
         in if v ! tmp < v ! hget a p_l j1
            then hsift v (hset a p_l i (hget a p_l j1)) p_l n tmp j1 (j1 + j1)
            else (a, i))
      else (a, i))"
  by pat_completeness auto

termination
  by (relation "measure (\<lambda>(v, a, p_l, n, tmp, i, j). Suc n - j)") auto

declare hsift.simps [simp del]

fun hbuild :: "real list \<Rightarrow> nat list \<Rightarrow> nat \<Rightarrow> nat \<Rightarrow> nat \<Rightarrow> nat list" where
  "hbuild v a p_l n 0 = a"
| "hbuild v a p_l n (Suc l) =
     (let tmp = hget a p_l (Suc l); (a', i) = hsift v a p_l n tmp (Suc l) (2 * Suc l)
      in hbuild v (hset a' p_l i tmp) p_l n l)"

fun hextract :: "real list \<Rightarrow> nat list \<Rightarrow> nat \<Rightarrow> nat \<Rightarrow> nat list" where
  "hextract v a p_l 0 = a"
| "hextract v a p_l (Suc m) =
     (if Suc m > 1 then
        (let tmp = hget a p_l (Suc m); a1 = hset a p_l (Suc m) (hget a p_l 1);
             (a2, i) = hsift v a1 p_l m tmp 1 2
         in hextract v (hset a2 p_l i tmp) p_l m)
      else a)"

definition aheapsort :: "real list \<Rightarrow> nat list \<Rightarrow> nat \<Rightarrow> nat \<Rightarrow> nat list" where
  "aheapsort v a p_l n = hextract v (hbuild v a p_l n (n div 2)) p_l n"

text \<open>
  \<open>aquick\<close> is the inner \<open>while ((p_r - p_l) > SMALL_QUICKSORT)\<close> of \<open>aquicksort\<close>
  followed by the insertion sort. After a partition the larger part is pushed on
  the stack with the decremented depth and the loop goes on with the smaller one;
  a part popped from the stack is heap-sorted when its depth is negative. The
  stack is last-in first-out, so the pushed part is sorted once the smaller one,
  and everything it pushed, is done: that is the second call.
\<close>

function aquick :: "real list \<Rightarrow> nat list \<Rightarrow> nat \<Rightarrow> nat \<Rightarrow> int \<Rightarrow> nat list" where
  "aquick v a p_l p_r cdepth =
     (if p_r - p_l > 16 then
        (let p_m = p_l + (p_r - p_l) div 2;
             a1 = (if v ! (a ! p_m) < v ! (a ! p_l) then swap_at a p_m p_l else a);
             a2 = (if v ! (a1 ! p_r) < v ! (a1 ! p_m) then swap_at a1 p_r p_m else a1);
             a3 = (if v ! (a2 ! p_m) < v ! (a2 ! p_l) then swap_at a2 p_m p_l else a2);
             vp = v ! (a3 ! p_m);
             a4 = swap_at a3 p_m (p_r - 1);
             (a5, p_i) = ploop v a4 vp p_l (p_r - 1);
             a6 = swap_at a5 p_i (p_r - 1);
             cd = cdepth - 1
         in if int p_i - int p_l < int p_r - int p_i then
              (let b = aquick v a6 p_l (p_i - 1) cd
               in if cd < 0 then aheapsort v b (p_i + 1) (p_r - (p_i + 1) + 1)
                  else aquick v b (p_i + 1) p_r cd)
            else
              (let b = aquick v a6 (p_i + 1) p_r cd
               in if cd < 0 then aheapsort v b p_l ((p_i - 1) - p_l + 1)
                  else aquick v b p_l (p_i - 1) cd))
      else insertion v a p_l p_r (p_l + 1))"
  by pat_completeness auto

termination
proof (relation "measures [\<lambda>(v, a, p_l, p_r, cd). nat (cd + 1), \<lambda>(v, a, p_l, p_r, cd). p_r - p_l]",
    goal_cases)
  case 1
  show ?case by simp
next
  case (2 v a p_l p_r cdepth x xa xb xaa xab xac xc xd y xe xf)
  from 2(1) 2(12) 2(11) show ?case by auto
next
  case (3 v a p_l p_r cdepth x xa xb xaa xab xac xc xd y xe xf xg)
  from 3(11) 3(14) show ?case by auto
next
  case (4 v a p_l p_r cdepth x xa xb xaa xab xac xc xd y xe xf)
  from 4(1) 4(12) 4(11) show ?case by auto
next
  case (5 v a p_l p_r cdepth x xa xb xaa xab xac xc xd y xe xf xg)
  from 5(11) 5(14) show ?case by auto
qed

declare aquick.simps [simp del]

text \<open>\<open>npy_get_msb\<close>: the position of the highest set bit.\<close>

fun npy_get_msb :: "nat \<Rightarrow> nat" where
  "npy_get_msb n = (if n < 2 then 0 else Suc (npy_get_msb (n div 2)))"

declare npy_get_msb.simps [simp del]

definition numpy_argsort :: "real list \<Rightarrow> nat list" where
  "numpy_argsort keys =
     (let num = length keys
      in aquick keys [0..<num] 0 (num - 1) (2 * int (npy_get_msb num)))"

section \<open>Well-formed states and a worked example\<close>

text \<open>
  After \<open>enable\<close> the controller holds a non-empty axis, the slider ranges over its
  indices, the hub subscription is in place and the session has a dataset:
  \<open>axis_bound\<close>. \<open>slider_ok\<close> adds that the slider's value lies in its range, and
  \<open>synced_ok\<close> is the invariant of the synced index.
\<close>

definition axis_bound :: "state \<Rightarrow> bool" where
  "axis_bound s =
     ((case wavelengths s of
         None \<Rightarrow> False
       | Some ws \<Rightarrow> ws \<noteq> [] \<and> sl_min s = 0 \<and> sl_max s = int (length ws) - 1) \<and>
      subscribed s \<and> 0 < n_datasets s)"

definition slider_ok :: "state \<Rightarrow> bool" where
  "slider_ok s = (axis_bound s \<and> 0 \<le> sl_value s \<and> sl_value s \<le> sl_max s)"

definition synced_ok :: "state \<Rightarrow> bool" where
  "synced_ok s =
     (case wavelengths s of
        None \<Rightarrow> False
      | Some ws \<Rightarrow> 0 \<le> synced_index s \<and> synced_index s < int (length ws))"

text \<open>\<open>argsort\<close> returns one index for each key.\<close>

definition argsort_total :: "ext \<Rightarrow> bool" where
  "argsort_total E = (\<forall>keys. length (np_argsort E keys) = length keys)"

text \<open>
  The library of the examples: numpy's sort, and \<open>float()\<close>, \<open>str()\<close> and
  \<open>format()\<close> on the texts and numbers the examples use (on these numbers
  \<open>'{:.3}'.format\<close> and \<open>str\<close> print the same text). Outside these tables the
  example library answers \<open>None\<close> or the empty text; no example goes there.
\<close>

definition demo_float :: "string \<Rightarrow> real option" where
  "demo_float t = map_of [(''1.0'', 1), (''2.0'', 2), (''3.0'', 3), (''2.2'', 2.2)] t"

definition demo_str :: "real \<Rightarrow> string" where
  "demo_str x = (case map_of [(1, ''1.0''), (2, ''2.0''), (3, ''3.0'')] x of Some t \<Rightarrow> t | None \<Rightarrow> [])"

definition numpy_ext :: ext where
  "numpy_ext = \<lparr>py_float = demo_float, py_str_float = demo_str,
     py_format = (\<lambda>fmt x. demo_str x), np_argsort = numpy_argsort\<rparr>"

text \<open>
  The state \<open>enable\<close> leaves for the axis \<open>[1.0, 2.0, 3.0]\<close>: three views, of which
  view 2 is not synced, view 0 active, no redshift.
\<close>

definition ex_state :: state where
  "ex_state =
     \<lparr>slice_text = ''1'', slice_style = [], slice_enabled = True,
      wl_text = ''2.0'', wl_style = [], wl_enabled = True,
      label_text = ''Obs Wavelength (um)'',
      sl_min = 0, sl_max = 2, sl_value = 1, sl_enabled = True,
      slider_flag = False,
      wavelength_label_text = ''Obs Wavelength'', wavelength_format = ''{:.3}'',
      wavelength_units = Some ''um'',
      wavelengths = Some [1, 2, 3],
      synced_index = 1,
      cube_views = [0, 1, 2], active_cube = 0,
      widgets = (\<lambda>v. \<lparr>synced = (v \<noteq> 2), draws = []\<rparr>),
      single_viewer_mode = False,
      units_controller = None,
      subscribed = True, n_datasets = 1,
      emitted = []\<rparr>"

text \<open>
  An axis of 18 wavelengths, long enough for numpy's sort to partition, and the
  example state with that axis.
\<close>

definition axis18 :: "real list" where
  "axis18 = [1, 2, 3, 4, 5, 6, 7, 8, 9, 10, 11, 12, 13, 14, 15, 16, 17, 18]"

definition ex_state18 :: state where
  "ex_state18 = ex_state\<lparr>sl_max := 17, wavelengths := Some axis18\<rparr>"

text \<open>
  A change of the slider rewrites the two texts, the slider's value, the synced
  index, the widgets and the emitted notifications, and nothing else.
\<close>

definition display_only :: "state \<Rightarrow> state \<Rightarrow> bool" where
  "display_only s s' =
     (slice_style s' = slice_style s \<and> slice_enabled s' = slice_enabled s \<and>
      wl_style s' = wl_style s \<and> wl_enabled s' = wl_enabled s \<and>
      label_text s' = label_text s \<and> sl_min s' = sl_min s \<and> sl_max s' = sl_max s \<and>
      sl_enabled s' = sl_enabled s \<and> slider_flag s' = slider_flag s \<and>
      wavelength_label_text s' = wavelength_label_text s \<and>
      wavelength_format s' = wavelength_format s \<and>
      wavelength_units s' = wavelength_units s \<and> wavelengths s' = wavelengths s \<and>
      cube_views s' = cube_views s \<and> active_cube s' = active_cube s \<and>
      single_viewer_mode s' = single_viewer_mode s \<and>
      units_controller s' = units_controller s \<and> subscribed s' = subscribed s \<and>
      n_datasets s' = n_datasets s)"

section \<open>The sort of the examples keeps the length of its array\<close>

lemma length_swap_at [simp]: "length (swap_at a i j) = length a"
  by (simp add: swap_at_def)

lemma length_ploop: "length (fst (ploop v a vp i j)) = length a"
proof (induction v a vp i j rule: ploop.induct)
  case (1 v a vp p_i p_j)
  show ?case
    using 1 by (subst ploop.simps) (simp add: Let_def)
qed

lemma length_ins_shift: "length (fst (ins_shift v a p_l vp k)) = length a"
  by (induction k arbitrary: a) auto

lemma length_insertion: "length (insertion v a p_l p_r i) = length a"
proof (induction v a p_l p_r i rule: insertion.induct)
  case (1 v a p_l p_r p_i)
  show ?case
  proof (cases "p_i \<le> p_r")
    case True
    obtain a' j where sh: "ins_shift v a p_l (v ! (a ! p_i)) p_i = (a', j)"
      by (cases "ins_shift v a p_l (v ! (a ! p_i)) p_i") auto
    have la: "length a' = length a"
      using length_ins_shift [of v a p_l "v ! (a ! p_i)" p_i] sh by simp
    have "length (insertion v (a'[j := a ! p_i]) p_l p_r (Suc p_i)) = length (a'[j := a ! p_i])"
      using 1 [OF True refl refl sh [symmetric] refl] .
    then show ?thesis
      using True sh la by (subst insertion.simps) (simp add: Let_def)
  next
    case False
    then show ?thesis by (subst insertion.simps) simp
  qed
qed

lemma length_hset [simp]: "length (hset a p_l k x) = length a"
  by (simp add: hset_def)

lemma length_hsift: "length (fst (hsift v a p_l n tmp i j)) = length a"
proof (induction v a p_l n tmp i j rule: hsift.induct)
  case (1 v a p_l n tmp i j)
  show ?case
    using 1 by (subst hsift.simps) (simp add: Let_def)
qed

lemma length_hbuild: "length (hbuild v a p_l n l) = length a"
proof (induction l arbitrary: a)
  case 0
  show ?case by simp
next
  case (Suc l)
  obtain a' i where sh: "hsift v a p_l n (hget a p_l (Suc l)) (Suc l) (2 * Suc l) = (a', i)"
    by (cases "hsift v a p_l n (hget a p_l (Suc l)) (Suc l) (2 * Suc l)") auto
  have "length a' = length a"
    using length_hsift [of v a p_l n "hget a p_l (Suc l)" "Suc l" "2 * Suc l"] sh by simp
  then show ?case
    using sh Suc.IH [of "hset a' p_l i (hget a p_l (Suc l))"] by (simp add: Let_def)
qed

lemma length_hextract: "length (hextract v a p_l m) = length a"
proof (induction m arbitrary: a)
  case 0
  show ?case by simp
next
  case (Suc m)
  let ?tmp = "hget a p_l (Suc m)"
  let ?a1 = "hset a p_l (Suc m) (hget a p_l 1)"
  obtain a2 i where sh: "hsift v ?a1 p_l m ?tmp 1 2 = (a2, i)"
    by (cases "hsift v ?a1 p_l m ?tmp 1 2") auto
  have "length a2 = length a"
    using length_hsift [of v ?a1 p_l m ?tmp 1 2] sh by simp
  then show ?case
    using sh Suc.IH [of "hset a2 p_l i ?tmp"] by (simp add: Let_def)
qed

lemma length_aheapsort: "length (aheapsort v a p_l n) = length a"
  by (simp add: aheapsort_def length_hextract length_hbuild)

lemma length_aquick: "length (aquick v a p_l p_r cdepth) = length a"
proof (induction v a p_l p_r cdepth rule: aquick.induct)
  case (1 v a p_l p_r cdepth)
  show ?case
  proof (cases "p_r - p_l > 16")
    case False
    then show ?thesis by (subst aquick.simps) (simp add: length_insertion)
  next
    case True
    define p_m where "p_m = p_l + (p_r - p_l) div 2"
    define a1 where "a1 = (if v ! (a ! p_m) < v ! (a ! p_l) then swap_at a p_m p_l else a)"
    define a2 where "a2 = (if v ! (a1 ! p_r) < v ! (a1 ! p_m) then swap_at a1 p_r p_m else a1)"
    define a3 where "a3 = (if v ! (a2 ! p_m) < v ! (a2 ! p_l) then swap_at a2 p_m p_l else a2)"
    define vp where "vp = v ! (a3 ! p_m)"
    define a4 where "a4 = swap_at a3 p_m (p_r - 1)"
    define pp where "pp = ploop v a4 vp p_l (p_r - 1)"
    define a5 where "a5 = fst pp"
    define i where "i = snd pp"
    define a6 where "a6 = swap_at a5 i (p_r - 1)"
    define cd where "cd = cdepth - 1"
    have pq: "(a5, i) = pp" by (simp add: a5_def i_def)
    have l4: "length a4 = length a"
      by (simp add: a4_def a3_def a2_def a1_def)
    have "length a5 = length a4"
      unfolding a5_def pp_def by (rule length_ploop)
    then have l6: "length a6 = length a" using l4 by (simp add: a6_def)
    note ih = 1 [OF True p_m_def a1_def a2_def a3_def vp_def a4_def pp_def pq a6_def cd_def]
    have unf: "aquick v a p_l p_r cdepth =
        (if int i - int p_l < int p_r - int i then
           (let b = aquick v a6 p_l (i - 1) cd
            in if cd < 0 then aheapsort v b (i + 1) (p_r - (i + 1) + 1)
               else aquick v b (i + 1) p_r cd)
         else
           (let b = aquick v a6 (i + 1) p_r cd
            in if cd < 0 then aheapsort v b p_l ((i - 1) - p_l + 1)
               else aquick v b p_l (i - 1) cd))"
      unfolding cd_def a6_def i_def a5_def pp_def a4_def vp_def a3_def a2_def a1_def p_m_def
      using True by (subst aquick.simps) (simp only: Let_def case_prod_beta if_True)
    show ?thesis
    proof (cases "int i - int p_l < int p_r - int i")
      case L: True
      define b where "b = aquick v a6 p_l (i - 1) cd"
      have lb: "length b = length a" using ih(1) [OF L] l6 by (simp add: b_def)
      have "length (if cd < 0 then aheapsort v b (i + 1) (p_r - (i + 1) + 1)
                else aquick v b (i + 1) p_r cd) = length a"
        using ih(2) [OF L b_def] lb by (simp add: length_aheapsort)
      then show ?thesis
        unfolding unf using L by (simp only: if_True Let_def b_def)
    next
      case R: False
      define b where "b = aquick v a6 (i + 1) p_r cd"
      have lb: "length b = length a" using ih(3) [OF R] l6 by (simp add: b_def)
      have "length (if cd < 0 then aheapsort v b p_l ((i - 1) - p_l + 1)
                else aquick v b p_l (i - 1) cd) = length a"
        using ih(4) [OF R b_def] lb by (simp add: length_aheapsort)
      then show ?thesis
        unfolding unf using R by (simp only: if_False Let_def b_def)
    qed
  qed
qed

lemma length_numpy_argsort: "length (numpy_argsort keys) = length keys"
  by (simp add: numpy_argsort_def Let_def length_aquick)

section \<open>The slider and the update it triggers\<close>

subsection \<open>Nearest index and array access\<close>

lemma nearest_total:
  assumes "ws \<noteq> []" "argsort_total E"
  shows "nearest E (Some ws) w = Inr (int (hd (np_argsort E (abs_diff ws w))))"
proof -
  have "length (np_argsort E (abs_diff ws w)) = length ws"
    using assms(2) by (simp add: argsort_total_def abs_diff_def)
  then have "np_argsort E (abs_diff ws w) \<noteq> []"
    using assms(1) by auto
  then show ?thesis
    by (cases "np_argsort E (abs_diff ws w)") (simp_all add: nearest_def)
qed

lemma np_getitem_in_range:
  "0 \<le> i \<Longrightarrow> i < int (length ws) \<Longrightarrow> np_getitem (Some ws) i = Inr (ws ! nat i)"
  by (simp add: np_getitem_def Let_def)

lemma wv_index_of_total:
  assumes "wavelengths s = Some ws" "ws \<noteq> []" "argsort_total E"
  shows "\<exists>k. wv_index_of E s = Inr k"
  using assms nearest_total [OF assms(2,3)]
  by (cases "py_float E (wl_text s)") (simp_all add: wv_index_of_def)

lemma wv_index_of_slice_text [simp]:
  "wv_index_of E (s\<lparr>slice_text := t\<rparr>) = wv_index_of E s"
  by (simp add: wv_index_of_def split: option.splits)

lemma wv_index_of_sl_value [simp]:
  "wv_index_of E (s\<lparr>sl_value := b\<rparr>) = wv_index_of E s"
  by (simp add: wv_index_of_def split: option.splits)

lemma tb_index_of_sl_value [simp]:
  "tb_index_of (s\<lparr>sl_value := b\<rparr>) = tb_index_of s"
  by (simp add: tb_index_of_def)

subsection \<open>The update that follows a change of the slider\<close>

lemma master_index_update_at_value:
  assumes ax: "wavelengths s = Some ws" and i0: "0 \<le> i" and i1: "i < int (length ws)"
    and v: "sl_value s = i" and tot: "argsort_total E"
  shows "master_index_update E s i =
     Inr (apply_to_viewers
       (s\<lparr>slice_text := (if tb_index_of s = i then slice_text s else py_str_int i),
          wl_text := (if wv_index_of E s = Inr i then wl_text s
                      else py_str_float E (ws ! nat i))\<rparr>) i)"
proof -
  have ne: "ws \<noteq> []" using i0 i1 by auto
  obtain k where k: "wv_index_of E s = Inr k"
    using wv_index_of_total [OF ax ne tot] by blast
  have g: "np_getitem (wavelengths s) i = Inr (ws ! nat i)"
    using np_getitem_in_range [OF i0 i1] ax by simp
  show ?thesis
  proof (cases "tb_index_of s = i")
    case True
    then show ?thesis
      using k g v ax by (cases "i = k") (simp_all add: master_index_update.simps Let_def)
  next
    case False
    then show ?thesis
      using k g v ax by (cases "i = k") (simp_all add: master_index_update.simps Let_def)
  qed
qed

lemma slider_setValue_bound:
  assumes "axis_bound s" "wavelengths s = Some ws"
  shows "slider_setValue E s v =
     (let b = max 0 (min (int (length ws) - 1) v)
      in if b = sl_value s then Inr s else master_index_update E (s\<lparr>sl_value := b\<rparr>) b)"
  using assms
  by (simp add: slider_setValue.simps on_slider_change.simps axis_bound_def Let_def)

lemma slider_setValue_result:
  fixes v :: int
  assumes ab: "axis_bound s" and ax: "wavelengths s = Some ws" and tot: "argsort_total E"
  defines "b \<equiv> max 0 (min (int (length ws) - 1) v)"
  shows "slider_setValue E s v =
     Inr (if b = sl_value s then s
          else apply_to_viewers
            (s\<lparr>sl_value := b,
               slice_text := (if tb_index_of s = b then slice_text s else py_str_int b),
               wl_text := (if wv_index_of E s = Inr b then wl_text s
                           else py_str_float E (ws ! nat b))\<rparr>) b)"
proof -
  have ne: "ws \<noteq> []" using ab ax by (simp add: axis_bound_def)
  have b0: "0 \<le> b" and b1: "b < int (length ws)"
    using ne by (auto simp: b_def)
  have "master_index_update E (s\<lparr>sl_value := b\<rparr>) b =
     Inr (apply_to_viewers
       ((s\<lparr>sl_value := b\<rparr>)\<lparr>slice_text := (if tb_index_of (s\<lparr>sl_value := b\<rparr>) = b
              then slice_text (s\<lparr>sl_value := b\<rparr>) else py_str_int b),
          wl_text := (if wv_index_of E (s\<lparr>sl_value := b\<rparr>) = Inr b then wl_text (s\<lparr>sl_value := b\<rparr>)
                      else py_str_float E (ws ! nat b))\<rparr>) b)"
    by (rule master_index_update_at_value [OF _ b0 b1 _ tot]) (simp_all add: ax)
  then show ?thesis
    using slider_setValue_bound [OF ab ax, of E v]
    by (simp add: b_def [symmetric] Let_def)
qed

subsection \<open>What \<open>apply_to_viewers\<close> changes\<close>

lemma fold_draw_on:
  "fold (\<lambda>v st. if synced (widgets st v) then draw_on st v d else st) vs s =
     s\<lparr>widgets := (\<lambda>v. (widgets s v)\<lparr>draws := draws (widgets s v) @
          (if synced (widgets s v) then replicate (count_list vs v) d else [])\<rparr>)\<rparr>"
proof (induction vs arbitrary: s)
  case Nil
  show ?case by (simp cong: if_cong)
next
  case (Cons x xs)
  show ?case
  proof (cases "synced (widgets s x)")
    case True
    have "(\<lambda>v. (widgets (draw_on s x d) v)\<lparr>draws := draws (widgets (draw_on s x d) v) @
             (if synced (widgets (draw_on s x d) v) then replicate (count_list xs v) d else [])\<rparr>) =
          (\<lambda>v. (widgets s v)\<lparr>draws := draws (widgets s v) @
             (if synced (widgets s v) then replicate (count_list (x # xs) v) d else [])\<rparr>)"
      using True by (auto simp: draw_on_def fun_eq_iff replicate_append_same)
    then show ?thesis
      using True Cons.IH [of "draw_on s x d"] by (simp add: draw_on_def)
  next
    case False
    have "(\<lambda>v. (widgets s v)\<lparr>draws := draws (widgets s v) @
             (if synced (widgets s v) then replicate (count_list xs v) d else [])\<rparr>) =
          (\<lambda>v. (widgets s v)\<lparr>draws := draws (widgets s v) @
             (if synced (widgets s v) then replicate (count_list (x # xs) v) d else [])\<rparr>)"
      using False by (auto simp: fun_eq_iff)
    then show ?thesis
      using False Cons.IH [of s] by simp
  qed
qed

lemma apply_to_viewers_synced:
  assumes "synced (widgets s (active_cube s))" "\<not> single_viewer_mode s"
  shows "apply_to_viewers s i =
     s\<lparr>synced_index := i,
       widgets := (\<lambda>v. (widgets s v)\<lparr>draws := draws (widgets s v) @
          (if synced (widgets s v)
           then replicate (count_list (cube_views s) v)
                  (if slider_flag s then FastDraw i else FullDraw i)
           else [])\<rparr>),
       emitted := emitted s @ [PositionChanged i]\<rparr>"
  using assms by (simp add: apply_to_viewers_def Let_def fold_draw_on emit_def)

lemma apply_to_viewers_single:
  assumes "\<not> (synced (widgets s (active_cube s)) \<and> \<not> single_viewer_mode s)"
  shows "apply_to_viewers s i =
     s\<lparr>widgets := (widgets s)(active_cube s := (widgets s (active_cube s))
          \<lparr>draws := draws (widgets s (active_cube s)) @
             [if slider_flag s then FastDraw i else FullDraw i]\<rparr>),
       emitted := emitted s @ [PositionChanged i]\<rparr>"
  using assms by (auto simp: apply_to_viewers_def Let_def emit_def draw_on_def)

lemma apply_to_viewers_frame:
  "\<exists>X W. apply_to_viewers s i =
     s\<lparr>synced_index := X, widgets := W, emitted := emitted s @ [PositionChanged i]\<rparr>"
proof (cases "synced (widgets s (active_cube s)) \<and> \<not> single_viewer_mode s")
  case True
  then show ?thesis
    using apply_to_viewers_synced [of s i] by blast
next
  case False
  have "s\<lparr>widgets := W, emitted := e\<rparr> = s\<lparr>synced_index := synced_index s, widgets := W, emitted := e\<rparr>"
    for W e by simp
  then show ?thesis
    using apply_to_viewers_single [OF False, of i] by metis
qed

subsection \<open>What a change of the slider may touch\<close>

lemma display_only_refl: "display_only s s"
  by (simp add: display_only_def)

lemma display_only_trans: "display_only s t \<Longrightarrow> display_only t u \<Longrightarrow> display_only s u"
  by (simp add: display_only_def)

lemma display_only_apply_to_viewers: "display_only s (apply_to_viewers s i)"
proof -
  obtain X W where "apply_to_viewers s i =
      s\<lparr>synced_index := X, widgets := W, emitted := emitted s @ [PositionChanged i]\<rparr>"
    using apply_to_viewers_frame by blast
  then show ?thesis by (simp add: display_only_def)
qed

lemma display_only_updates:
  "display_only s (s\<lparr>slice_text := t\<rparr>)" "display_only s (s\<lparr>wl_text := w\<rparr>)"
  "display_only s (s\<lparr>sl_value := b\<rparr>)"
  by (simp_all add: display_only_def)

lemma slider_display_only:
  "(\<forall>s'. master_index_update E s i = Inr s' \<longrightarrow> display_only s s')"
  "(\<forall>s'. slider_setValue E s v = Inr s' \<longrightarrow> display_only s s')"
  "(\<forall>s'. on_slider_change E s = Inr s' \<longrightarrow> display_only s s')"
proof (induction E s i and E s v and E s
    rule: master_index_update_slider_setValue_on_slider_change.induct)
  case (1 E s index)
  show ?case
  proof (intro allI impI)
    fix s'
    assume r: "master_index_update E s index = Inr s'"
    define s1 where "s1 = (if tb_index_of s \<noteq> index then s\<lparr>slice_text := py_str_int index\<rparr> else s)"
    have d1: "display_only s s1"
      by (simp add: s1_def display_only_updates display_only_refl)
    have unf: "master_index_update E s index =
       (case wv_index_of E s1 of
          Inl e \<Rightarrow> Inl e
        | Inr wv_index \<Rightarrow>
            (case (if index \<noteq> wv_index
                   then (case np_getitem (wavelengths s1) index of
                           Inl e \<Rightarrow> Inl e
                         | Inr w \<Rightarrow> Inr (s1\<lparr>wl_text := py_str_float E w\<rparr>))
                   else Inr s1) of
               Inl e \<Rightarrow> Inl e
             | Inr s2 \<Rightarrow>
                 (case (if sl_value s2 \<noteq> index then slider_setValue E s2 index else Inr s2) of
                    Inl e \<Rightarrow> Inl e
                  | Inr s3 \<Rightarrow> Inr (apply_to_viewers s3 index))))"
      unfolding s1_def by (simp only: master_index_update.simps [of E s index] Let_def)
    note ra = r [unfolded unf]
    from ra obtain wv where wv: "wv_index_of E s1 = Inr wv"
      by (cases "wv_index_of E s1") simp_all
    define r2 where "r2 = (if index \<noteq> wv
        then (case np_getitem (wavelengths s1) index of
                Inl e \<Rightarrow> Inl e
              | Inr w \<Rightarrow> Inr (s1\<lparr>wl_text := py_str_float E w\<rparr>))
        else Inr s1)"
    have rb: "(case r2 of
               Inl e \<Rightarrow> Inl e
             | Inr s2 \<Rightarrow>
                 (case (if sl_value s2 \<noteq> index then slider_setValue E s2 index else Inr s2) of
                    Inl e \<Rightarrow> Inl e
                  | Inr s3 \<Rightarrow> Inr (apply_to_viewers s3 index))) = Inr s'"
      using ra wv by (simp add: r2_def)
    from rb obtain s2 where s2: "r2 = Inr s2"
      by (cases r2) simp_all
    have d2: "display_only s1 s2"
      using s2 unfolding r2_def
      by (auto simp: display_only_updates display_only_refl split: if_splits sum.splits)
    define r3 where "r3 = (if sl_value s2 \<noteq> index then slider_setValue E s2 index else Inr s2)"
    have rc: "(case r3 of Inl e \<Rightarrow> Inl e | Inr s3 \<Rightarrow> Inr (apply_to_viewers s3 index)) = Inr s'"
      using rb s2 by (simp add: r3_def)
    from rc obtain s3 where s3: "r3 = Inr s3" and fin: "s' = apply_to_viewers s3 index"
      by (cases r3) auto
    have d3: "display_only s2 s3"
    proof (cases "sl_value s2 \<noteq> index")
      case True
      have "\<forall>s'. slider_setValue E s2 index = Inr s' \<longrightarrow> display_only s2 s'"
        by (rule 1 [OF refl s1_def wv _ True]) (use s2 in \<open>simp add: r2_def\<close>)
      then show ?thesis using s3 True by (simp add: r3_def)
    next
      case False
      then show ?thesis using s3 by (simp add: r3_def display_only_refl)
    qed
    show "display_only s s'"
      using d1 d2 d3 display_only_apply_to_viewers [of s3 index] fin
      by (blast intro: display_only_trans)
  qed
next
  case (2 E s v)
  show ?case
  proof (intro allI impI)
    fix s'
    assume r: "slider_setValue E s v = Inr s'"
    define b where "b = max (sl_min s) (min (sl_max s) v)"
    show "display_only s s'"
    proof (cases "b = sl_value s")
      case True
      then show ?thesis
        using r by (simp add: slider_setValue.simps Let_def b_def display_only_refl)
    next
      case False
      then have "on_slider_change E (s\<lparr>sl_value := b\<rparr>) = Inr s'"
        using r by (simp add: slider_setValue.simps Let_def b_def)
      then have "display_only (s\<lparr>sl_value := b\<rparr>) s'"
        using 2 [OF b_def False] by blast
      then show ?thesis
        using display_only_updates(3) [of s b] by (blast intro: display_only_trans)
    qed
  qed
next
  case (3 E s)
  show ?case
  proof (intro allI impI)
    fix s'
    assume r: "on_slider_change E s = Inr s'"
    show "display_only s s'"
    proof (cases "n_datasets s \<noteq> 0 \<and> subscribed s")
      case True
      then have "master_index_update E s (sl_value s) = Inr s'"
        using r by (simp add: on_slider_change.simps Let_def)
      then show ?thesis
        using 3 [OF refl] True by blast
    next
      case False
      then show ?thesis
        using r by (auto simp: on_slider_change.simps Let_def display_only_refl split: if_splits)
    qed
  qed
qed

section \<open>Lemmas for the claims\<close>

lemma argsort_total_numpy: "argsort_total numpy_ext"
  by (simp add: argsort_total_def numpy_ext_def length_numpy_argsort)

lemma axis_bound_ex: "axis_bound ex_state"
  by (simp add: axis_bound_def ex_state_def)

lemmas py_int_eval = py_int_def py_strip_def py_isspace_def py_int_body_def py_isdigit_def
  digit_val_def

lemma apply_to_viewers_fields [simp]:
  "sl_value (apply_to_viewers s i) = sl_value s"
  "slice_text (apply_to_viewers s i) = slice_text s"
  "wl_text (apply_to_viewers s i) = wl_text s"
  "emitted (apply_to_viewers s i) = emitted s @ [PositionChanged i]"
proof -
  obtain X W where "apply_to_viewers s i =
      s\<lparr>synced_index := X, widgets := W, emitted := emitted s @ [PositionChanged i]\<rparr>"
    using apply_to_viewers_frame by blast
  then show "sl_value (apply_to_viewers s i) = sl_value s"
    "slice_text (apply_to_viewers s i) = slice_text s"
    "wl_text (apply_to_viewers s i) = wl_text s"
    "emitted (apply_to_viewers s i) = emitted s @ [PositionChanged i]"
    by simp_all
qed

lemma slider_setValue_facts:
  fixes v :: int
  assumes ab: "axis_bound s" and ax: "wavelengths s = Some ws" and tot: "argsort_total E"
  defines "b \<equiv> max 0 (min (int (length ws) - 1) v)"
  shows "\<exists>s'. slider_setValue E s v = Inr s' \<and> sl_value s' = b \<and> display_only s s' \<and>
     slice_text s' = (if b = sl_value s \<or> tb_index_of s = b then slice_text s else py_str_int b) \<and>
     wl_text s' = (if b = sl_value s \<or> wv_index_of E s = Inr b then wl_text s
                   else py_str_float E (ws ! nat b)) \<and>
     emitted s' = (if b = sl_value s then emitted s else emitted s @ [PositionChanged b])"
proof -
  note r = slider_setValue_result [OF ab ax tot, of v, folded b_def]
  have d: "display_only s s'" if "slider_setValue E s v = Inr s'" for s'
    using slider_display_only(2) that by blast
  show ?thesis
  proof (cases "b = sl_value s")
    case True
    then show ?thesis using r d by simp
  next
    case False
    then show ?thesis using r d by simp
  qed
qed

lemma on_text_slice_change_parsed:
  assumes ab: "axis_bound s" and ax: "wavelengths s = Some ws" and tot: "argsort_total E"
    and p: "py_int (slice_text s) = Some n"
  defines "c \<equiv> (if n < 0 then 0 else if n > int (length ws) - 1 then int (length ws) - 1 else n)"
  shows "on_text_slice_change E s = slider_setValue E (s\<lparr>slice_style := []\<rparr>) c"
    and "\<exists>s'. on_text_slice_change E s = Inr s' \<and> sl_value s' = c \<and> slice_style s' = []"
proof -
  have ne: "ws \<noteq> []" using ab ax by (simp add: axis_bound_def)
  then have len: "0 < int (length ws)" by simp
  show eq: "on_text_slice_change E s = slider_setValue E (s\<lparr>slice_style := []\<rparr>) c"
    using p ax len by (simp add: on_text_slice_change_def Let_def py_len_def c_def)
  have ab': "axis_bound (s\<lparr>slice_style := []\<rparr>)"
    using ab by (simp add: axis_bound_def split: option.splits)
  have ax': "wavelengths (s\<lparr>slice_style := []\<rparr>) = Some ws"
    using ax by simp
  obtain s' where s': "slider_setValue E (s\<lparr>slice_style := []\<rparr>) c = Inr s'"
    and v: "sl_value s' = max 0 (min (int (length ws) - 1) c)"
    and d: "display_only (s\<lparr>slice_style := []\<rparr>) s'"
    using slider_setValue_facts [OF ab' ax' tot, of c] by blast
  have "max 0 (min (int (length ws) - 1) c) = c"
    using len by (auto simp: c_def)
  moreover have "slice_style s' = []"
    using d by (simp add: display_only_def)
  ultimately show "\<exists>s'. on_text_slice_change E s = Inr s' \<and> sl_value s' = c \<and> slice_style s' = []"
    using eq s' v by simp
qed

lemma on_text_wavelength_change_parsed:
  assumes ab: "axis_bound s" and ax: "wavelengths s = Some ws" and tot: "argsort_total E"
    and p: "py_float E (wl_text s) = Some w"
  shows "\<exists>s'. on_text_wavelength_change E s None = Inr s' \<and> wl_style s' = []"
proof -
  have ne: "ws \<noteq> []" using ab ax by (simp add: axis_bound_def)
  have ab': "axis_bound (s\<lparr>wl_style := []\<rparr>)"
    using ab by (simp add: axis_bound_def split: option.splits)
  have ax': "wavelengths (s\<lparr>wl_style := []\<rparr>) = Some ws"
    using ax by simp
  define k where "k = int (hd (np_argsort E (abs_diff ws w)))"
  have eq: "on_text_wavelength_change E s None = slider_setValue E (s\<lparr>wl_style := []\<rparr>) k"
    using p ax nearest_total [OF ne tot, of w]
    by (simp add: on_text_wavelength_change_def k_def)
  obtain s' where s': "slider_setValue E (s\<lparr>wl_style := []\<rparr>) k = Inr s'"
    and d: "display_only (s\<lparr>wl_style := []\<rparr>) s'"
    using slider_setValue_facts [OF ab' ax' tot, of k] by blast
  have "wl_style s' = []"
    using d by (simp add: display_only_def)
  then show ?thesis using eq s' by simp
qed

subsection \<open>The first index of an argsort has a least key\<close>

lemma is_argsort_set:
  assumes "is_argsort keys p"
  shows "set p = {..<length keys}"
proof -
  have sub: "set p \<subseteq> {..<length keys}"
    using assms by (auto simp: is_argsort_def list_all_iff)
  have "card (set p) = length keys"
    using assms by (simp add: is_argsort_def distinct_card)
  then show ?thesis
    using sub by (simp add: card_subset_eq)
qed

lemma is_argsort_hd:
  assumes a: "is_argsort keys p" and ne: "keys \<noteq> []"
  shows "hd p < length keys" and "\<forall>j<length keys. keys ! hd p \<le> keys ! j" and "p \<noteq> []"
proof -
  show pne: "p \<noteq> []"
    using a ne by (auto simp: is_argsort_def)
  then have "hd p \<in> set p" by simp
  then show "hd p < length keys"
    using is_argsort_set [OF a] by auto
  show "\<forall>j<length keys. keys ! hd p \<le> keys ! j"
  proof (intro allI impI)
    fix j assume "j < length keys"
    then have j: "j \<in> set p" using is_argsort_set [OF a] by auto
    obtain x xs where p: "p = x # xs" using pne by (cases p) auto
    have "sorted (map (\<lambda>i. keys ! i) (x # xs))"
      using a p by (simp add: is_argsort_def)
    then have "\<forall>y\<in>set xs. keys ! x \<le> keys ! y" by simp
    then show "keys ! hd p \<le> keys ! j"
      using j p by auto
  qed
qed

lemma nearest_minimal:
  assumes a: "is_argsort (abs_diff ws w) (np_argsort E (abs_diff ws w))" and ne: "ws \<noteq> []"
  shows "\<exists>i<length ws. nearest E (Some ws) w = Inr (int i) \<and>
           (\<forall>j<length ws. \<bar>ws ! i - w\<bar> \<le> \<bar>ws ! j - w\<bar>)"
proof -
  let ?p = "np_argsort E (abs_diff ws w)"
  have kne: "abs_diff ws w \<noteq> []" using ne by (simp add: abs_diff_def)
  note h = is_argsort_hd [OF a kne]
  have n: "nearest E (Some ws) w = Inr (int (hd ?p))"
    using h(3) by (cases ?p) (simp_all add: nearest_def)
  have l: "hd ?p < length ws" using h(1) by (simp add: abs_diff_def)
  have "\<forall>j<length ws. \<bar>ws ! hd ?p - w\<bar> \<le> \<bar>ws ! j - w\<bar>"
  proof (intro allI impI)
    fix j assume j: "j < length ws"
    then have "abs_diff ws w ! hd ?p \<le> abs_diff ws w ! j"
      using h(2) by (simp add: abs_diff_def)
    then show "\<bar>ws ! hd ?p - w\<bar> \<le> \<bar>ws ! j - w\<bar>"
      using j l by (simp add: abs_diff_def)
  qed
  then show ?thesis using n l by blast
qed

lemma on_text_wavelength_change_flag:
  assumes "on_text_wavelength_change E s pos = Inr s2"
  shows "slider_flag s2 = slider_flag s"
proof (cases "case pos of Some p \<Rightarrow> Some p | None \<Rightarrow> py_float E (wl_text s)")
  case None
  then show ?thesis
    using assms by (auto simp: on_text_wavelength_change_def)
next
  case (Some w)
  then obtain k where "slider_setValue E (s\<lparr>wl_style := []\<rparr>) k = Inr s2"
    using assms by (auto simp: on_text_wavelength_change_def split: sum.splits)
  then have "display_only (s\<lparr>wl_style := []\<rparr>) s2"
    using slider_display_only(2) by blast
  then show ?thesis by (simp add: display_only_def)
qed

lemma specviz_delegates:
  assumes "rest_position E (if slider_flag s then s else s\<lparr>slider_flag := True\<rparr>) pos = Inr pos'"
  shows "specviz_wavelength_slider_change E s pos =
     map_sum id (\<lambda>s2. s2\<lparr>slider_flag := slider_flag s\<rparr>)
       (on_text_wavelength_change E (s\<lparr>slider_flag := True\<rparr>) pos')"
proof (cases "slider_flag s")
  case False
  then show ?thesis
    using assms by (simp add: specviz_wavelength_slider_change_def Let_def split: sum.splits)
next
  case True
  then have e: "s\<lparr>slider_flag := True\<rparr> = s" by simp
  have unf: "specviz_wavelength_slider_change E s pos = on_text_wavelength_change E s pos'"
    using assms True
    by (simp add: specviz_wavelength_slider_change_def Let_def split: sum.splits)
  show ?thesis
  proof (cases "on_text_wavelength_change E s pos'")
    case (Inl err)
    then show ?thesis
      unfolding unf e by simp
  next
    case (Inr s2)
    then have "slider_flag s2 = True"
      using on_text_wavelength_change_flag True by simp
    then have "s2\<lparr>slider_flag := True\<rparr> = s2" by simp
    then show ?thesis
      unfolding unf e using Inr True by simp
  qed
qed

lemma rest_position_flag [simp]:
  "rest_position E (s\<lparr>slider_flag := f\<rparr>) pos = rest_position E s pos"
  by (simp add: rest_position_def split: option.splits sum.splits)

subsection \<open>\<open>int(str(n)) = n\<close>\<close>

lemma digit_char_props:
  assumes "d < 10"
  shows "py_isdigit (digit_char d)" "digit_val (digit_char d) = d"
    "\<not> py_isspace (digit_char d)" "digit_char d \<noteq> CHR ''+''" "digit_char d \<noteq> CHR ''-''"
    "digit_char d \<noteq> CHR ''_''"
proof -
  from assms have "d \<in> {0, 1, 2, 3, 4, 5, 6, 7, 8, 9}" by auto
  then show "py_isdigit (digit_char d)" "digit_val (digit_char d) = d"
    "\<not> py_isspace (digit_char d)" "digit_char d \<noteq> CHR ''+''" "digit_char d \<noteq> CHR ''-''"
    "digit_char d \<noteq> CHR ''_''"
    by (auto simp: digit_char_def py_isdigit_def digit_val_def py_isspace_def)
qed

lemma py_digits_snoc:
  assumes "py_digits acc cs = Some m" "d < 10"
  shows "py_digits acc (cs @ [digit_char d]) = Some (10 * m + d)"
  using assms
proof (induction acc cs rule: py_digits.induct)
  case (1 acc)
  then show ?case by (simp add: digit_char_props)
next
  case (2 acc c)
  then show ?case
    by (auto simp: digit_char_props split: if_splits)
next
  case (3 acc c e cs)
  show ?case
  proof (cases "py_isdigit c")
    case True
    then show ?thesis using 3 by simp
  next
    case False
    then have u: "c = CHR ''_''" "py_isdigit e" and m: "py_digits (10 * acc + digit_val e) cs = Some m"
      using 3(3) by (auto split: if_splits)
    have "py_digits (10 * acc + digit_val e) (cs @ [digit_char d]) = Some (10 * m + d)"
      using 3(2) False u m 3(4) by simp
    then show ?thesis
      using False u by (cases cs) (simp_all add: digit_char_props 3(4))
  qed
qed

lemma str_nat_parse:
  "\<exists>c cs. str_nat n = c # cs \<and> py_isdigit c \<and> py_digits (digit_val c) cs = Some n \<and>
      \<not> py_isspace c \<and> c \<noteq> CHR ''+'' \<and> c \<noteq> CHR ''-'' \<and> \<not> py_isspace (last (c # cs))"
proof (induction n rule: str_nat.induct)
  case (1 n)
  show ?case
  proof (cases "n < 10")
    case True
    then show ?thesis
      by (subst str_nat.simps) (simp add: digit_char_props)
  next
    case False
    then obtain c cs where h: "str_nat (n div 10) = c # cs" "py_isdigit c"
      "py_digits (digit_val c) cs = Some (n div 10)"
      "\<not> py_isspace c" "c \<noteq> CHR ''+''" "c \<noteq> CHR ''-''"
      using 1 by blast
    have d: "n mod 10 < 10" by simp
    have "str_nat n = c # (cs @ [digit_char (n mod 10)])"
      using False h(1) by (subst str_nat.simps) simp
    moreover have "py_digits (digit_val c) (cs @ [digit_char (n mod 10)]) = Some n"
      using py_digits_snoc [OF h(3) d] by simp
    ultimately show ?thesis
      using h(2,4,5,6) digit_char_props(3) [OF d] by simp
  qed
qed

lemma dropWhile_keeps:
  "xs \<noteq> [] \<Longrightarrow> \<not> P (hd xs) \<Longrightarrow> dropWhile P xs = xs"
  by (cases xs) auto

lemma py_strip_id:
  assumes "t = c # cs" "\<not> py_isspace c" "\<not> py_isspace (last t)"
  shows "py_strip t = t"
proof -
  have ne: "t \<noteq> []" using assms(1) by simp
  have a: "dropWhile py_isspace t = t"
    using assms by simp
  have "\<not> py_isspace (hd (rev t))"
    using assms(3) ne by (simp add: hd_rev)
  then have "dropWhile py_isspace (rev t) = rev t"
    using ne by (intro dropWhile_keeps) simp_all
  then show ?thesis
    using a by (simp add: py_strip_def)
qed

lemma py_int_str_nat: "py_int (str_nat n) = Some (int n)"
proof -
  obtain c cs where h: "str_nat n = c # cs" "py_isdigit c" "py_digits (digit_val c) cs = Some n"
      "\<not> py_isspace c" "c \<noteq> CHR ''+''" "c \<noteq> CHR ''-''" "\<not> py_isspace (last (c # cs))"
    using str_nat_parse by blast
  have "py_strip (str_nat n) = c # cs"
    using py_strip_id [of "str_nat n" c cs] h by simp
  then show ?thesis
    using h by (simp add: py_int_def py_int_body_def)
qed

lemma py_int_str_int: "py_int (py_str_int i) = Some i"
proof (cases "i < 0")
  case False
  then show ?thesis by (simp add: py_str_int_def py_int_str_nat)
next
  case True
  obtain c cs where h: "str_nat (nat (- i)) = c # cs" "py_isdigit c"
      "py_digits (digit_val c) cs = Some (nat (- i))"
      "\<not> py_isspace c" "c \<noteq> CHR ''+''" "c \<noteq> CHR ''-''" "\<not> py_isspace (last (c # cs))"
    using str_nat_parse by blast
  have sp: "\<not> py_isspace CHR ''-''" by (simp add: py_isspace_def)
  have "py_strip (CHR ''-'' # c # cs) = CHR ''-'' # c # cs"
    using py_strip_id [of "CHR ''-'' # c # cs" "CHR ''-''" "c # cs"] h(7) sp by simp
  then show ?thesis
    using True h by (simp add: py_str_int_def py_int_def py_int_body_def)
qed

lemma tb_index_of_eq:
  "0 \<le> i \<Longrightarrow> tb_index_of s = i \<longleftrightarrow> py_int (slice_text s) = Some i"
  by (auto simp: tb_index_of_def split: option.splits)

subsection \<open>The synced index\<close>

lemma axis_bound_display_only:
  "display_only s s' \<Longrightarrow> axis_bound s' = axis_bound s"
  by (simp add: display_only_def axis_bound_def split: option.splits)

lemma apply_to_viewers_synced_index:
  "synced_index (apply_to_viewers s i) =
     (if synced (widgets s (active_cube s)) \<and> \<not> single_viewer_mode s then i else synced_index s)"
proof (cases "synced (widgets s (active_cube s)) \<and> \<not> single_viewer_mode s")
  case True
  then show ?thesis using apply_to_viewers_synced [of s i] by simp
next
  case False
  have "synced_index (apply_to_viewers s i) = synced_index s"
    by (subst apply_to_viewers_single [OF False]) simp
  then show ?thesis using False by auto
qed

lemma on_slider_released_fields:
  "synced_index (on_slider_released s) =
     (if synced (widgets s (active_cube s)) \<and> \<not> single_viewer_mode s then sl_value s
      else synced_index s)"
  "wavelengths (on_slider_released s) = wavelengths s"
  "sl_min (on_slider_released s) = sl_min s" "sl_max (on_slider_released s) = sl_max s"
  "sl_value (on_slider_released s) = sl_value s"
  "subscribed (on_slider_released s) = subscribed s"
  "n_datasets (on_slider_released s) = n_datasets s"
  by (simp_all add: on_slider_released_def Let_def fold_draw_on emit_def draw_on_def)

lemma slider_setValue_synced:
  fixes v :: int
  assumes ab: "axis_bound s" and ax: "wavelengths s = Some ws" and tot: "argsort_total E"
  defines "b \<equiv> max 0 (min (int (length ws) - 1) v)"
  shows "\<exists>s'. slider_setValue E s v = Inr s' \<and> sl_value s' = b \<and> display_only s s' \<and>
           (synced_index s' = synced_index s \<or> synced_index s' = b)"
proof -
  note r = slider_setValue_result [OF ab ax tot, of v, folded b_def]
  have d: "display_only s s'" if "slider_setValue E s v = Inr s'" for s'
    using slider_display_only(2) that by blast
  show ?thesis
  proof (cases "b = sl_value s")
    case True
    then show ?thesis using r d by simp
  next
    case False
    then show ?thesis using r d by (simp add: apply_to_viewers_synced_index)
  qed
qed

lemma slider_setMaximum_axis:
  assumes ax: "wavelengths s = Some ws" and ne: "ws \<noteq> []" and mn: "sl_min s = 0"
    and sub: "subscribed s" and nd: "0 < n_datasets s" and tot: "argsort_total E"
  shows "\<exists>s'. slider_setMaximum E s (int (length ws) - 1) = Inr s' \<and>
           display_only (s\<lparr>sl_max := int (length ws) - 1\<rparr>) s' \<and>
           (sl_value s' = max 0 (min (int (length ws) - 1) (sl_value s)) \<or>
            (sl_max s = int (length ws) - 1 \<and> sl_value s' = sl_value s)) \<and>
           (synced_index s' = synced_index s \<or>
            synced_index s' = max 0 (min (int (length ws) - 1) (sl_value s)))"
proof -
  let ?n = "int (length ws)"
  let ?t = "s\<lparr>sl_min := 0, sl_max := ?n - 1\<rparr>"
  have n1: "0 \<le> ?n - 1" using ne by (cases ws) auto
  have t: "?t = s\<lparr>sl_max := ?n - 1\<rparr>"
    using mn by simp
  have e: "slider_setMaximum E s (?n - 1) =
      (if sl_max s \<noteq> ?n - 1 then slider_setValue E ?t (sl_value ?t) else Inr ?t)"
    using mn n1 by (simp add: slider_setMaximum_def slider_setRange_def Let_def)
  show ?thesis
  proof (cases "sl_max s \<noteq> ?n - 1")
    case False
    then show ?thesis
      using e t by (simp add: display_only_refl)
  next
    case True
    have ab: "axis_bound ?t"
      using ax ne sub nd by (simp add: axis_bound_def)
    have ax': "wavelengths ?t = Some ws" using ax by simp
    obtain s' where "slider_setValue E ?t (sl_value ?t) = Inr s'"
      "sl_value s' = max 0 (min (?n - 1) (sl_value ?t))" "display_only ?t s'"
      "synced_index s' = synced_index ?t \<or> synced_index s' = max 0 (min (?n - 1) (sl_value ?t))"
      using slider_setValue_synced [OF ab ax' tot, of "sl_value ?t"] by blast
    then show ?thesis
      using e True t by auto
  qed
qed

lemma slider_setMinimum_zero:
  assumes "sl_min s \<le> sl_value s" "sl_value s \<le> sl_max s" "0 \<le> sl_value s"
  shows "slider_setMinimum E s 0 = Inr (s\<lparr>sl_min := 0\<rparr>)"
proof -
  have m: "max 0 (max (sl_max s) 0) = sl_max s" using assms by auto
  have e: "s\<lparr>sl_min := 0, sl_max := sl_max s\<rparr> = s\<lparr>sl_min := 0\<rparr>" by simp
  have b: "max 0 (min (sl_max s) (sl_value s)) = sl_value s" using assms by auto
  have "slider_setValue E (s\<lparr>sl_min := 0\<rparr>) (sl_value s) = Inr (s\<lparr>sl_min := 0\<rparr>)"
    using b by (simp add: slider_setValue.simps Let_def)
  then show ?thesis
    by (simp add: slider_setMinimum_def slider_setRange_def Let_def m e)
qed

lemma enable_ok:
  assumes ne: "ws \<noteq> []" and r: "sl_min s \<le> sl_value s" "sl_value s \<le> sl_max s" "0 \<le> sl_value s"
    and nd: "0 < n_datasets s" and tot: "argsort_total E"
  shows "\<exists>s'. enable E s units ws = Inr s' \<and> wavelengths s' = Some ws \<and> axis_bound s' \<and>
           sl_value s' = int (length ws) div 2 \<and> synced_index s' = int (length ws) div 2"
proof -
  let ?n = "int (length ws)"
  define s1 where "s1 = (set_enabled s True)\<lparr>subscribed := True\<rparr>"
  have r1: "sl_min s1 \<le> sl_value s1" "sl_value s1 \<le> sl_max s1" "0 \<le> sl_value s1"
    using r by (simp_all add: s1_def set_enabled_def)
  define s2 where "s2 = s1\<lparr>sl_min := 0\<rparr>"
  have m: "slider_setMinimum E s1 0 = Inr s2"
    unfolding s2_def by (rule slider_setMinimum_zero [OF r1])
  define s3 where "s3 = s2\<lparr>wavelength_units := Some units, wavelength_format := ''{:.3}''\<rparr>"
  define s4 where "s4 = s3\<lparr>label_text := label_of (wavelength_label_text s3) (wavelength_units s3)\<rparr>"
  define s5 where "s5 = s4\<lparr>wavelengths := Some ws\<rparr>"
  have f5: "wavelengths s5 = Some ws" "sl_min s5 = 0" "subscribed s5" "0 < n_datasets s5"
    using nd by (simp_all add: s5_def s4_def s3_def s2_def s1_def set_enabled_def)
  obtain s6 where s6: "slider_setMaximum E s5 (?n - 1) = Inr s6"
    "display_only (s5\<lparr>sl_max := ?n - 1\<rparr>) s6"
    using slider_setMaximum_axis [OF f5(1) ne f5(2,3,4) tot] by blast
  have ab5: "axis_bound (s5\<lparr>sl_max := ?n - 1\<rparr>)"
    using f5 ne by (simp add: axis_bound_def)
  have ab6: "axis_bound s6"
    using axis_bound_display_only [OF s6(2)] ab5 by simp
  have w6: "wavelengths s6 = Some ws"
    using s6(2) f5(1) by (simp add: display_only_def)
  obtain s7 where s7: "slider_setValue E s6 (?n div 2) = Inr s7"
    "sl_value s7 = max 0 (min (?n - 1) (?n div 2))" "display_only s6 s7"
    using slider_setValue_synced [OF ab6 w6 tot, of "?n div 2"] by blast
  have n0: "0 < ?n" using ne by simp
  then have "?n div 2 \<le> ?n - 1" "0 \<le> ?n div 2" by presburger+
  then have mid: "max 0 (min (?n - 1) (?n div 2)) = ?n div 2" by simp
  have ab7: "axis_bound s7"
    using axis_bound_display_only [OF s7(3)] ab6 by simp
  have w7: "wavelengths s7 = Some ws"
    using s7(3) w6 by (simp add: display_only_def)
  have g: "np_getitem (wavelengths s7) (?n div 2) = Inr (ws ! nat (?n div 2))"
    unfolding w7 using n0 by (intro np_getitem_in_range) presburger+
  define s8 where "s8 = s7\<lparr>wl_text := py_format E (wavelength_format s7) (ws ! nat (?n div 2)),
      synced_index := ?n div 2\<rparr>"
  have "enable E s units ws = Inr s8"
    unfolding enable_def s1_def [symmetric] Let_def m sum.case s3_def [symmetric]
      s4_def [symmetric] s5_def [symmetric] f5(1) py_len_def option.case s6(1) w6 s7(1) g
      s8_def [symmetric]
    by (rule refl)
  moreover have "wavelengths s8 = Some ws" "sl_value s8 = ?n div 2" "synced_index s8 = ?n div 2"
    using w7 s7(2) mid by (simp_all add: s8_def)
  moreover have "axis_bound s8"
    using ab7 by (simp add: s8_def axis_bound_def split: option.splits)
  ultimately show ?thesis by blast
qed

lemma set_wavelengths_ok:
  assumes ab: "axis_bound s" and sv: "0 \<le> sl_value s" "sl_value s \<le> sl_max s"
    and i0: "0 \<le> synced_index s"
    and i1: "synced_index s < int (length new_ws)" and sn: "short_names \<noteq> []"
    and tot: "argsort_total E"
  shows "\<exists>s'. set_wavelengths E s new_ws short_names = Inr s' \<and> wavelengths s' = Some new_ws \<and>
           slider_ok s' \<and> synced_ok s'"
proof -
  let ?n = "int (length new_ws)"
  obtain u us where sn': "short_names = u # us" using sn by (cases short_names) auto
  have ne: "new_ws \<noteq> []" using i0 i1 by auto
  define s1 where "s1 = s\<lparr>wavelength_units := Some u, wavelength_format := ''{:.3}''\<rparr>"
  define s2 where "s2 = s1\<lparr>label_text := label_of (wavelength_label_text s1) (wavelength_units s1)\<rparr>"
  define s3 where "s3 = s2\<lparr>wavelengths := Some new_ws\<rparr>"
  have f3: "wavelengths s3 = Some new_ws" "sl_min s3 = 0" "subscribed s3" "0 < n_datasets s3"
    "synced_index s3 = synced_index s" "sl_value s3 = sl_value s" "sl_max s3 = sl_max s"
    using ab by (simp_all add: s3_def s2_def s1_def axis_bound_def split: option.splits)
  obtain s4 where s4: "slider_setMaximum E s3 (?n - 1) = Inr s4"
    "display_only (s3\<lparr>sl_max := ?n - 1\<rparr>) s4"
    "synced_index s4 = synced_index s3 \<or>
     synced_index s4 = max 0 (min (?n - 1) (sl_value s3))"
    "sl_value s4 = max 0 (min (?n - 1) (sl_value s3)) \<or>
     (sl_max s3 = ?n - 1 \<and> sl_value s4 = sl_value s3)"
    using slider_setMaximum_axis [OF f3(1) ne f3(2,3,4) tot] by blast
  have ab3: "axis_bound (s3\<lparr>sl_max := ?n - 1\<rparr>)"
    using f3 ne by (simp add: axis_bound_def)
  have ab4: "axis_bound s4"
    using axis_bound_display_only [OF s4(2)] ab3 by simp
  have w4: "wavelengths s4 = Some new_ws"
    using s4(2) f3(1) by (simp add: display_only_def)
  have n0: "0 < ?n" using ne by simp
  have r4: "0 \<le> synced_index s4" "synced_index s4 < ?n"
    using s4(3) f3(5) i0 i1 n0 by auto
  have g: "np_getitem (wavelengths s4) (synced_index s4) = Inr (new_ws ! nat (synced_index s4))"
    unfolding w4 using r4 by (intro np_getitem_in_range)
  define s5 where "s5 = emit (s4\<lparr>wl_text := py_format E (wavelength_format s4)
      (new_ws ! nat (synced_index s4))\<rparr>) (UnitsChanged short_names)"
  have "set_wavelengths E s new_ws (u # us) = Inr s5"
    unfolding set_wavelengths_def list.case Let_def s1_def [symmetric] s2_def [symmetric]
      s3_def [symmetric] f3(1) py_len_def option.case s4(1) sum.case g
      s5_def [symmetric, unfolded sn']
    by (rule refl)
  moreover have "wavelengths s5 = Some new_ws"
    using w4 by (simp add: s5_def emit_def)
  moreover have "axis_bound s5"
    using ab4 by (simp add: s5_def emit_def axis_bound_def split: option.splits)
  moreover have "sl_max s5 = ?n - 1"
    using s4(2) by (simp add: s5_def emit_def display_only_def)
  moreover have "0 \<le> sl_value s4 \<and> sl_value s4 \<le> ?n - 1"
    using s4(4) f3(6,7) sv n0 by auto
  then have "0 \<le> sl_value s5 \<and> sl_value s5 \<le> ?n - 1"
    by (simp add: s5_def emit_def)
  moreover have "synced_ok s5"
    using r4 w4 by (simp add: s5_def emit_def synced_ok_def)
  ultimately show ?thesis using sn' by (auto simp: slider_ok_def)
qed

lemma slider_ok_ex: "slider_ok ex_state"
  using axis_bound_ex by (simp add: slider_ok_def ex_state_def)

lemma synced_ok_ex: "synced_ok ex_state"
  by (simp add: synced_ok_def ex_state_def)

section \<open>The claims\<close>

text \<open>
  C1, as the code has it. Setting the slider to an index \<open>i\<close> of the axis other
  than its current value runs \<open>master_index_update\<close>, after which the slider is
  at \<open>i\<close> and the slice text box reads as \<open>i\<close>: it holds \<open>str(i)\<close>, unless its
  text already parsed as \<open>i\<close>, and then the text is left as it was. The wavelength
  text box is left as it was when its text already resolves to the index \<open>i\<close>.
\<close>

theorem slider_change_updates_texts:
  assumes "axis_bound s" "wavelengths s = Some ws" "argsort_total E"
    "0 \<le> i" "i < int (length ws)" "i \<noteq> sl_value s"
  shows "\<exists>s'. slider_setValue E s i = Inr s' \<and> sl_value s' = i \<and>
           slice_text s' = (if py_int (slice_text s) = Some i then slice_text s else py_str_int i) \<and>
           py_int (slice_text s') = Some i \<and>
           (wv_index_of E s = Inr i \<longrightarrow> wl_text s' = wl_text s)"
proof -
  have b: "max 0 (min (int (length ws) - 1) i) = i"
    using assms(4,5) by auto
  obtain s' where s': "slider_setValue E s i = Inr s'" "sl_value s' = i"
    "slice_text s' = (if i = sl_value s \<or> tb_index_of s = i then slice_text s else py_str_int i)"
    "wl_text s' = (if i = sl_value s \<or> wv_index_of E s = Inr i then wl_text s
                   else py_str_float E (ws ! nat i))"
    using slider_setValue_facts [OF assms(1,2,3), of i] unfolding b by blast
  have t: "slice_text s' = (if py_int (slice_text s) = Some i then slice_text s else py_str_int i)"
    using s'(3) assms(6) tb_index_of_eq [OF assms(4), of s] by simp
  then have "py_int (slice_text s') = Some i"
    by (simp add: py_int_str_int)
  then show ?thesis
    using s' t by simp
qed

theorem slider_change_updates_texts_witness:
  "axis_bound (ex_state\<lparr>wl_text := ''3.0''\<rparr>) \<and>
   wavelengths (ex_state\<lparr>wl_text := ''3.0''\<rparr>) = Some [1, 2, 3] \<and>
   argsort_total numpy_ext \<and> sl_value (ex_state\<lparr>wl_text := ''3.0''\<rparr>) = 1 \<and>
   wv_index_of numpy_ext (ex_state\<lparr>wl_text := ''3.0''\<rparr>) = Inr 2 \<and>
   py_str_int 2 = ''2'' \<and>
   (\<exists>s'. slider_setValue numpy_ext (ex_state\<lparr>wl_text := ''3.0''\<rparr>) 2 = Inr s' \<and>
         sl_value s' = 2 \<and> slice_text s' = ''2'' \<and> wl_text s' = ''3.0'')"
proof -
  let ?s = "ex_state\<lparr>wl_text := ''3.0''\<rparr>"
  have ab: "axis_bound ?s"
    using axis_bound_ex by (simp add: axis_bound_def split: option.splits)
  have w: "wavelengths ?s = Some [1, 2, 3]" and v: "sl_value ?s = 1"
    and st: "slice_text ?s = ''1''" and wt: "wl_text ?s = ''3.0''"
    by (simp_all add: ex_state_def)
  have srt: "np_argsort numpy_ext (abs_diff [1, 2, 3] 3) = [2, 1, 0]"
    unfolding numpy_ext_def ext.simps by code_simp
  have f: "py_float numpy_ext ''3.0'' = Some 3"
    by (simp add: numpy_ext_def demo_float_def)
  have wv: "wv_index_of numpy_ext ?s = Inr 2"
    unfolding wv_index_of_def wt f option.case w nearest_def srt by simp
  have p: "py_int ''1'' = Some 1" by (simp add: py_int_eval)
  have str2: "py_str_int 2 = ''2''"
    by (simp add: py_str_int_def str_nat.simps digit_char_def)
  have "\<exists>s'. slider_setValue numpy_ext ?s 2 = Inr s' \<and> sl_value s' = 2 \<and>
           slice_text s' = ''2'' \<and> wl_text s' = ''3.0''"
    using slider_change_updates_texts [OF ab w argsort_total_numpy, of 2] v st wt wv p str2
    by auto
  then show ?thesis
    using ab w argsort_total_numpy v wv str2 by blast
qed

theorem slider_change_texts_counterexample:
  "sl_value (ex_state\<lparr>slice_text := ''+2''\<rparr>) = 1 \<and>
   (\<exists>s'. slider_setValue numpy_ext (ex_state\<lparr>slice_text := ''+2''\<rparr>) 2 = Inr s' \<and>
         sl_value s' = 2 \<and> slice_text s' = ''+2'') \<and>
   py_str_int 2 = ''2'' \<and>
   sl_value (ex_state\<lparr>sl_value := 0, wl_text := ''2.2''\<rparr>) = 0 \<and>
   (\<exists>s'. slider_setValue numpy_ext (ex_state\<lparr>sl_value := 0, wl_text := ''2.2''\<rparr>) 1 = Inr s' \<and>
         sl_value s' = 1 \<and> wl_text s' = ''2.2'') \<and>
   py_format numpy_ext ''{:.3}'' ([1, 2, 3] ! 1) = ''2.0''"
proof -
  let ?s = "ex_state\<lparr>slice_text := ''+2''\<rparr>"
  let ?t = "ex_state\<lparr>sl_value := 0, wl_text := ''2.2''\<rparr>"
  have ab: "axis_bound ?s" "axis_bound ?t"
    using axis_bound_ex by (simp_all add: axis_bound_def split: option.splits)
  have w: "wavelengths ?s = Some [1, 2, 3]" "wavelengths ?t = Some [1, 2, 3]"
    and v: "sl_value ?s = 1" "sl_value ?t = 0"
    and wt: "wl_text ?t = ''2.2''"
    by (simp_all add: ex_state_def)
  have p: "tb_index_of ?s = 2"
    by (simp add: tb_index_of_def py_int_eval)
  have str2: "py_str_int 2 = ''2''"
    by (simp add: py_str_int_def str_nat.simps digit_char_def)
  have one: "\<exists>s'. slider_setValue numpy_ext ?s 2 = Inr s' \<and> sl_value s' = 2 \<and>
      slice_text s' = ''+2''"
    using slider_setValue_facts [OF ab(1) w(1) argsort_total_numpy, of 2] p by auto
  have srt: "np_argsort numpy_ext (abs_diff [1, 2, 3] 2.2) = [1, 2, 0]"
    unfolding numpy_ext_def ext.simps by code_simp
  have f: "py_float numpy_ext ''2.2'' = Some 2.2"
    by (simp add: numpy_ext_def demo_float_def)
  have wv: "wv_index_of numpy_ext ?t = Inr 1"
    unfolding wv_index_of_def wt f option.case w nearest_def srt by simp
  have two: "\<exists>s'. slider_setValue numpy_ext ?t 1 = Inr s' \<and> sl_value s' = 1 \<and>
      wl_text s' = ''2.2''"
    using slider_setValue_facts [OF ab(2) w(2) argsort_total_numpy, of 1] wv wt by auto
  have fm: "py_format numpy_ext ''{:.3}'' ([1, 2, 3] ! 1) = ''2.0''"
    by (simp add: numpy_ext_def demo_str_def)
  show ?thesis
    using v one str2 two fm by blast
qed

text \<open>
  C2, as the code has it. \<open>_on_text_wavelength_change\<close> resolves the target
  wavelength (the given position, or else the parsed text) to an index of the axis
  whose absolute difference to the target is least, and sets the slider to it. When
  several indices attain the least difference, the one returned is the one numpy's
  \<open>argsort\<close> lists first; that it is the lowest is not promised.
\<close>

theorem nearest_wavelength_minimises:
  assumes "wavelengths s = Some ws" "ws \<noteq> []"
    "is_argsort (abs_diff ws w) (np_argsort E (abs_diff ws w))"
    "pos = Some w \<or> (pos = None \<and> py_float E (wl_text s) = Some w)"
  shows "\<exists>i<length ws.
           (\<forall>j<length ws. \<bar>ws ! i - w\<bar> \<le> \<bar>ws ! j - w\<bar>) \<and>
           nearest E (wavelengths s) w = Inr (int i) \<and>
           on_text_wavelength_change E s pos = slider_setValue E (s\<lparr>wl_style := []\<rparr>) (int i)"
proof -
  obtain i where i: "i < length ws" "nearest E (Some ws) w = Inr (int i)"
    "\<forall>j<length ws. \<bar>ws ! i - w\<bar> \<le> \<bar>ws ! j - w\<bar>"
    using nearest_minimal [OF assms(3,2)] by blast
  have "on_text_wavelength_change E s pos = slider_setValue E (s\<lparr>wl_style := []\<rparr>) (int i)"
    using assms(1,4) i(2) by (auto simp: on_text_wavelength_change_def)
  then show ?thesis using i assms(1) by auto
qed

theorem nearest_wavelength_minimises_witness:
  "wavelengths ex_state = Some [1, 2, 3] \<and>
   is_argsort (abs_diff [1, 2, 3] 2.2) (np_argsort numpy_ext (abs_diff [1, 2, 3] 2.2)) \<and>
   py_float numpy_ext (wl_text (ex_state\<lparr>wl_text := ''2.2''\<rparr>)) = Some 2.2 \<and>
   nearest numpy_ext (wavelengths ex_state) 2.2 = Inr 1 \<and>
   on_text_wavelength_change numpy_ext ex_state (Some 2.2) =
     slider_setValue numpy_ext (ex_state\<lparr>wl_style := []\<rparr>) 1 \<and>
   on_text_wavelength_change numpy_ext (ex_state\<lparr>wl_text := ''2.2''\<rparr>) None =
     slider_setValue numpy_ext (ex_state\<lparr>wl_text := ''2.2'', wl_style := []\<rparr>) 1"
proof -
  have w: "wavelengths (ex_state\<lparr>wl_text := t\<rparr>) = Some [1, 2, 3]" 
    "wavelengths ex_state = Some [1, 2, 3]" for t
    by (simp_all add: ex_state_def)
  have ne: "[1, 2, 3 :: real] \<noteq> []" by simp
  have srt: "np_argsort numpy_ext (abs_diff [1, 2, 3] 2.2) = [1, 2, 0]"
    unfolding numpy_ext_def ext.simps by code_simp
  have a: "is_argsort (abs_diff [1, 2, 3] 2.2) (np_argsort numpy_ext (abs_diff [1, 2, 3] 2.2))"
    unfolding srt by (simp add: is_argsort_def abs_diff_def)
  have f: "py_float numpy_ext (wl_text (ex_state\<lparr>wl_text := ''2.2''\<rparr>)) = Some 2.2"
    by (simp add: numpy_ext_def demo_float_def)
  have n: "nearest numpy_ext (Some [1, 2, 3]) 2.2 = Inr 1"
    unfolding nearest_def option.case srt by simp
  have r1: "on_text_wavelength_change numpy_ext ex_state (Some 2.2) =
     slider_setValue numpy_ext (ex_state\<lparr>wl_style := []\<rparr>) 1"
    using nearest_wavelength_minimises [OF w(2) ne a, where pos = "Some 2.2"] n w(2)
    by auto
  have r2: "on_text_wavelength_change numpy_ext (ex_state\<lparr>wl_text := ''2.2''\<rparr>) None =
     slider_setValue numpy_ext (ex_state\<lparr>wl_text := ''2.2'', wl_style := []\<rparr>) 1"
    using nearest_wavelength_minimises [OF w(1) [of "''2.2''"] ne a, where pos = None] n
      w(1) [of "''2.2''"] f
    by auto
  show ?thesis
    using w(2) a f n r1 r2 by simp
qed

theorem nearest_tie_counterexample:
  "nearest numpy_ext (Some axis18) 15.5 = Inr 15 \<and>
   \<bar>axis18 ! 14 - 15.5\<bar> = \<bar>axis18 ! 15 - 15.5\<bar> \<and>
   on_text_wavelength_change numpy_ext ex_state18 (Some 15.5) =
     slider_setValue numpy_ext (ex_state18\<lparr>wl_style := []\<rparr>) 15"
proof -
  have srt: "np_argsort numpy_ext (abs_diff axis18 15.5) =
      [15, 14, 13, 16, 17, 12, 11, 10, 9, 8, 7, 6, 5, 4, 3, 2, 1, 0]"
    unfolding numpy_ext_def ext.simps by code_simp
  have n: "nearest numpy_ext (Some axis18) 15.5 = Inr 15"
    unfolding nearest_def option.case srt by simp
  have t: "\<bar>axis18 ! 14 - 15.5\<bar> = \<bar>axis18 ! 15 - 15.5\<bar>"
    by (simp add: axis18_def)
  have "wavelengths ex_state18 = Some axis18"
    by (simp add: ex_state18_def)
  then have "on_text_wavelength_change numpy_ext ex_state18 (Some 15.5) =
     slider_setValue numpy_ext (ex_state18\<lparr>wl_style := []\<rparr>) 15"
    using n by (simp add: on_text_wavelength_change_def)
  then show ?thesis using n t by simp
qed

text \<open>
  C3, as the code has it. The synced index stays an index of the bound axis under
  each operation when the operation is given what it expects: \<open>enable\<close> a
  non-empty axis (the synced index becomes \<open>len(axis) // 2\<close>); \<open>set_wavelengths\<close>
  an axis that still contains the synced index (as a unit conversion of the same
  length does) and a unit with a short name; \<open>apply_to_viewers\<close> an index of the
  axis; the release of the slider a slider that ranges over the axis. The slider
  keeps ranging over the axis as well.
\<close>

theorem synced_index_preserved:
  "(ws \<noteq> [] \<and> sl_min s \<le> sl_value s \<and> sl_value s \<le> sl_max s \<and> 0 \<le> sl_value s \<and>
    0 < n_datasets s \<and> argsort_total E \<longrightarrow>
      (\<exists>s'. enable E s units ws = Inr s' \<and> synced_ok s' \<and> slider_ok s' \<and>
            synced_index s' = int (length ws) div 2)) \<and>
   (slider_ok s \<and> synced_ok s \<and> argsort_total E \<and> short_names \<noteq> [] \<and>
    synced_index s < int (length new_ws) \<longrightarrow>
      (\<exists>s'. set_wavelengths E s new_ws short_names = Inr s' \<and> synced_ok s' \<and> slider_ok s')) \<and>
   (slider_ok s \<and> synced_ok s \<and> wavelengths s = Some ax \<and> 0 \<le> i \<and> i < int (length ax) \<longrightarrow>
      synced_ok (apply_to_viewers s i) \<and> slider_ok (apply_to_viewers s i)) \<and>
   (slider_ok s \<and> synced_ok s \<longrightarrow>
      synced_ok (on_slider_released s) \<and> slider_ok (on_slider_released s))"
proof (intro conjI impI)
  assume a: "ws \<noteq> [] \<and> sl_min s \<le> sl_value s \<and> sl_value s \<le> sl_max s \<and> 0 \<le> sl_value s \<and>
    0 < n_datasets s \<and> argsort_total E"
  then obtain s' where s': "enable E s units ws = Inr s'" "wavelengths s' = Some ws"
    "axis_bound s'" "sl_value s' = int (length ws) div 2"
    "synced_index s' = int (length ws) div 2"
    using enable_ok [of ws s E units] by blast
  have n0: "0 < int (length ws)" using a by simp
  then have m: "0 \<le> int (length ws) div 2" "int (length ws) div 2 \<le> int (length ws) - 1"
    by presburger+
  have "synced_ok s'"
    using s'(2,5) m by (simp add: synced_ok_def)
  moreover have "slider_ok s'"
    using s'(2,3,4) m by (simp add: slider_ok_def axis_bound_def)
  ultimately show "\<exists>s'. enable E s units ws = Inr s' \<and> synced_ok s' \<and> slider_ok s' \<and>
            synced_index s' = int (length ws) div 2"
    using s'(1,5) by blast
next
  assume a: "slider_ok s \<and> synced_ok s \<and> argsort_total E \<and> short_names \<noteq> [] \<and>
    synced_index s < int (length new_ws)"
  then have "0 \<le> synced_index s"
    by (auto simp: synced_ok_def split: option.splits)
  then show "\<exists>s'. set_wavelengths E s new_ws short_names = Inr s' \<and> synced_ok s' \<and> slider_ok s'"
    using set_wavelengths_ok [of s new_ws short_names E] a by (auto simp: slider_ok_def)
next
  assume a: "slider_ok s \<and> synced_ok s \<and> wavelengths s = Some ax \<and> 0 \<le> i \<and> i < int (length ax)"
  have d: "display_only s (apply_to_viewers s i)"
    by (rule display_only_apply_to_viewers)
  then have w: "wavelengths (apply_to_viewers s i) = Some ax"
    using a by (simp add: display_only_def)
  show "synced_ok (apply_to_viewers s i)"
    using a w by (auto simp: synced_ok_def apply_to_viewers_synced_index)
  show "slider_ok (apply_to_viewers s i)"
    using a d axis_bound_display_only [OF d] by (simp add: slider_ok_def display_only_def)
next
  assume a: "slider_ok s \<and> synced_ok s"
  show "synced_ok (on_slider_released s)"
    using a
    by (auto simp: synced_ok_def slider_ok_def axis_bound_def on_slider_released_fields
        split: option.splits)
  show "slider_ok (on_slider_released s)"
    using a
    by (auto simp: slider_ok_def axis_bound_def on_slider_released_fields split: option.splits)
qed

theorem synced_index_preserved_witness:
  "(\<exists>s'. enable numpy_ext
            (ex_state\<lparr>sl_max := 99, sl_value := 0, wavelengths := None, subscribed := False\<rparr>)
            ''um'' [1, 2, 3] = Inr s' \<and> synced_ok s' \<and> synced_index s' = 1) \<and>
   slider_ok ex_state \<and> synced_ok ex_state \<and> argsort_total numpy_ext \<and>
   (\<exists>s'. set_wavelengths numpy_ext ex_state [10, 20, 30] [''nm''] = Inr s' \<and> synced_ok s') \<and>
   wavelengths ex_state = Some [1, 2, 3] \<and>
   synced_ok (apply_to_viewers ex_state 2) \<and>
   synced_ok (on_slider_released ex_state)"
proof -
  let ?s0 = "ex_state\<lparr>sl_max := 99, sl_value := 0, wavelengths := None, subscribed := False\<rparr>"
  have h0: "[1, 2, 3 :: real] \<noteq> [] \<and> sl_min ?s0 \<le> sl_value ?s0 \<and> sl_value ?s0 \<le> sl_max ?s0 \<and>
      0 \<le> sl_value ?s0 \<and> 0 < n_datasets ?s0 \<and> argsort_total numpy_ext"
    using argsort_total_numpy by (simp add: ex_state_def)
  have one: "\<exists>s'. enable numpy_ext ?s0 ''um'' [1, 2, 3] = Inr s' \<and> synced_ok s' \<and>
      synced_index s' = 1"
    using synced_index_preserved [of "[1, 2, 3]" ?s0 numpy_ext "''um''", THEN conjunct1] h0
    by auto
  have w: "wavelengths ex_state = Some [1, 2, 3]" and si: "synced_index ex_state = 1"
    by (simp_all add: ex_state_def)
  have two: "\<exists>s'. set_wavelengths numpy_ext ex_state [10, 20, 30] [''nm''] = Inr s' \<and> synced_ok s'"
    using synced_index_preserved [of _ ex_state numpy_ext _ "[''nm'']" "[10, 20, 30]",
        THEN conjunct2, THEN conjunct1]
      slider_ok_ex synced_ok_ex argsort_total_numpy si
    by auto
  have three: "synced_ok (apply_to_viewers ex_state 2)"
    using synced_index_preserved [of _ ex_state _ _ _ _ "[1, 2, 3]" 2,
        THEN conjunct2, THEN conjunct2, THEN conjunct1]
      slider_ok_ex synced_ok_ex w
    by simp
  have four: "synced_ok (on_slider_released ex_state)"
    using synced_index_preserved [of _ ex_state,
        THEN conjunct2, THEN conjunct2, THEN conjunct2]
      slider_ok_ex synced_ok_ex
    by simp
  show ?thesis
    using one two three four slider_ok_ex synced_ok_ex argsort_total_numpy w by blast
qed

theorem synced_index_counterexample:
  "synced_ok ex_state \<and> slider_ok ex_state \<and>
   synced_index (apply_to_viewers ex_state (- 1)) = - 1 \<and>
   \<not> synced_ok (apply_to_viewers ex_state (- 1)) \<and>
   map_sum id synced_index (master_index_update numpy_ext ex_state (- 1)) = Inr (- 1)"
proof -
  have a: "synced (widgets ex_state (active_cube ex_state))" "\<not> single_viewer_mode ex_state"
    and w: "wavelengths ex_state = Some [1, 2, 3]"
    by (simp_all add: ex_state_def)
  have i: "synced_index (apply_to_viewers ex_state (- 1)) = - 1"
    using a by (simp add: apply_to_viewers_synced_index)
  have d: "display_only ex_state (apply_to_viewers ex_state (- 1))"
    by (rule display_only_apply_to_viewers)
  have n: "\<not> synced_ok (apply_to_viewers ex_state (- 1))"
    using d w i by (simp add: synced_ok_def display_only_def)
  have m: "map_sum id synced_index (master_index_update numpy_ext ex_state (- 1)) = Inr (- 1)"
    by code_simp
  show ?thesis
    using synced_ok_ex slider_ok_ex i n m by simp
qed

text \<open>
  C4. With a redshift \<open>z\<close> other than 0 (and other than -1, where the division
  fails), the cursor-position handler converts the observed position \<open>p\<close> to the
  rest wavelength \<open>p / (1 + z)\<close>, resolves it to a nearest index \<open>i\<close> of the
  axis, and hands \<open>axis[i]\<close> to \<open>_on_text_wavelength_change\<close>, run with the
  fast-draw flag set; the flag is afterwards what it was before. With no units
  controller or \<open>z = 0\<close> the position is handed over unchanged.
\<close>

theorem specviz_redshift_conversion:
  "(wavelengths s = Some ws \<and> ws \<noteq> [] \<and> units_controller s = Some z \<and> z \<noteq> 0 \<and> 1 + z \<noteq> 0 \<and>
    is_argsort (abs_diff ws (p / (1 + z))) (np_argsort E (abs_diff ws (p / (1 + z)))) \<longrightarrow>
      (\<exists>i<length ws.
         (\<forall>j<length ws. \<bar>ws ! i - p / (1 + z)\<bar> \<le> \<bar>ws ! j - p / (1 + z)\<bar>) \<and>
         nearest E (wavelengths s) (p / (1 + z)) = Inr (int i) \<and>
         rest_position E s (Some p) = Inr (Some (ws ! i)) \<and>
         specviz_wavelength_slider_change E s (Some p) =
           map_sum id (\<lambda>s2. s2\<lparr>slider_flag := slider_flag s\<rparr>)
             (on_text_wavelength_change E (s\<lparr>slider_flag := True\<rparr>) (Some (ws ! i))))) \<and>
   (units_controller s = None \<or> units_controller s = Some 0 \<longrightarrow>
      rest_position E s pos = Inr pos \<and>
      specviz_wavelength_slider_change E s pos =
        map_sum id (\<lambda>s2. s2\<lparr>slider_flag := slider_flag s\<rparr>)
          (on_text_wavelength_change E (s\<lparr>slider_flag := True\<rparr>) pos))"
proof (intro conjI impI)
  assume a: "wavelengths s = Some ws \<and> ws \<noteq> [] \<and> units_controller s = Some z \<and> z \<noteq> 0 \<and>
    1 + z \<noteq> 0 \<and>
    is_argsort (abs_diff ws (p / (1 + z))) (np_argsort E (abs_diff ws (p / (1 + z))))"
  then obtain i where i: "i < length ws" "nearest E (Some ws) (p / (1 + z)) = Inr (int i)"
    "\<forall>j<length ws. \<bar>ws ! i - p / (1 + z)\<bar> \<le> \<bar>ws ! j - p / (1 + z)\<bar>"
    using nearest_minimal [of ws "p / (1 + z)" E] by blast
  have g: "np_getitem (Some ws) (int i) = Inr (ws ! i)"
    using np_getitem_in_range [of "int i" ws] i(1) by simp
  have rp: "rest_position E s (Some p) = Inr (Some (ws ! i))"
    using a i(2) g by (simp add: rest_position_def Let_def)
  then have "rest_position E (if slider_flag s then s else s\<lparr>slider_flag := True\<rparr>) (Some p) =
      Inr (Some (ws ! i))"
    by simp
  then have "specviz_wavelength_slider_change E s (Some p) =
           map_sum id (\<lambda>s2. s2\<lparr>slider_flag := slider_flag s\<rparr>)
             (on_text_wavelength_change E (s\<lparr>slider_flag := True\<rparr>) (Some (ws ! i)))"
    by (rule specviz_delegates)
  then show "\<exists>i<length ws.
         (\<forall>j<length ws. \<bar>ws ! i - p / (1 + z)\<bar> \<le> \<bar>ws ! j - p / (1 + z)\<bar>) \<and>
         nearest E (wavelengths s) (p / (1 + z)) = Inr (int i) \<and>
         rest_position E s (Some p) = Inr (Some (ws ! i)) \<and>
         specviz_wavelength_slider_change E s (Some p) =
           map_sum id (\<lambda>s2. s2\<lparr>slider_flag := slider_flag s\<rparr>)
             (on_text_wavelength_change E (s\<lparr>slider_flag := True\<rparr>) (Some (ws ! i)))"
    using i rp a by auto
next
  assume a: "units_controller s = None \<or> units_controller s = Some 0"
  then show rp: "rest_position E s pos = Inr pos"
    by (auto simp: rest_position_def)
  then have "rest_position E (if slider_flag s then s else s\<lparr>slider_flag := True\<rparr>) pos = Inr pos"
    by simp
  then show "specviz_wavelength_slider_change E s pos =
        map_sum id (\<lambda>s2. s2\<lparr>slider_flag := slider_flag s\<rparr>)
          (on_text_wavelength_change E (s\<lparr>slider_flag := True\<rparr>) pos)"
    by (rule specviz_delegates)
qed

theorem specviz_redshift_conversion_witness:
  "wavelengths (ex_state\<lparr>units_controller := Some 1\<rparr>) = Some [1, 2, 3] \<and>
   is_argsort (abs_diff [1, 2, 3] (4.4 / (1 + 1))) (np_argsort numpy_ext (abs_diff [1, 2, 3] (4.4 / (1 + 1)))) \<and>
   rest_position numpy_ext (ex_state\<lparr>units_controller := Some 1\<rparr>) (Some 4.4) = Inr (Some 2) \<and>
   specviz_wavelength_slider_change numpy_ext (ex_state\<lparr>units_controller := Some 1\<rparr>) (Some 4.4) =
     map_sum id (\<lambda>s2. s2\<lparr>slider_flag := False\<rparr>)
       (on_text_wavelength_change numpy_ext
          (ex_state\<lparr>units_controller := Some 1, slider_flag := True\<rparr>) (Some 2)) \<and>
   units_controller ex_state = None \<and>
   specviz_wavelength_slider_change numpy_ext ex_state (Some 4.4) =
     map_sum id (\<lambda>s2. s2\<lparr>slider_flag := False\<rparr>)
       (on_text_wavelength_change numpy_ext (ex_state\<lparr>slider_flag := True\<rparr>) (Some 4.4))"
proof -
  let ?s = "ex_state\<lparr>units_controller := Some 1\<rparr>"
  have w: "wavelengths ?s = Some [1, 2, 3]" by (simp add: ex_state_def)
  have u: "units_controller ?s = Some 1" "units_controller ex_state = None"
    "slider_flag ?s = False" "slider_flag ex_state = False"
    by (simp_all add: ex_state_def)
  have srt: "np_argsort numpy_ext (abs_diff [1, 2, 3] (4.4 / (1 + 1))) = [1, 2, 0]"
    unfolding numpy_ext_def ext.simps by code_simp
  have a: "is_argsort (abs_diff [1, 2, 3] (4.4 / (1 + 1)))
      (np_argsort numpy_ext (abs_diff [1, 2, 3] (4.4 / (1 + 1))))"
    unfolding srt by (simp add: is_argsort_def abs_diff_def)
  have n: "nearest numpy_ext (wavelengths ?s) (4.4 / (1 + 1)) = Inr 1"
    unfolding w nearest_def option.case srt by simp
  obtain i where i: "nearest numpy_ext (wavelengths ?s) (4.4 / (1 + 1)) = Inr (int i)"
    "rest_position numpy_ext ?s (Some 4.4) = Inr (Some ([1, 2, 3] ! i))"
    "specviz_wavelength_slider_change numpy_ext ?s (Some 4.4) =
       map_sum id (\<lambda>s2. s2\<lparr>slider_flag := slider_flag ?s\<rparr>)
         (on_text_wavelength_change numpy_ext (?s\<lparr>slider_flag := True\<rparr>) (Some ([1, 2, 3] ! i)))"
    using specviz_redshift_conversion [of ?s "[1, 2, 3]" 1 "4.4" numpy_ext] w u(1) a
    by auto
  have "i = 1" using i(1) n by simp
  then have r1: "rest_position numpy_ext ?s (Some 4.4) = Inr (Some 2)"
    "specviz_wavelength_slider_change numpy_ext ?s (Some 4.4) =
       map_sum id (\<lambda>s2. s2\<lparr>slider_flag := False\<rparr>)
         (on_text_wavelength_change numpy_ext (?s\<lparr>slider_flag := True\<rparr>) (Some 2))"
    using i(2,3) u(3) by simp_all
  have r2: "specviz_wavelength_slider_change numpy_ext ex_state (Some 4.4) =
     map_sum id (\<lambda>s2. s2\<lparr>slider_flag := False\<rparr>)
       (on_text_wavelength_change numpy_ext (ex_state\<lparr>slider_flag := True\<rparr>) (Some 4.4))"
    using specviz_redshift_conversion [of ex_state ws z p numpy_ext "Some 4.4"] u(2,4)
    by simp
  show ?thesis
    using w a r1 r2 u(2) by simp
qed

text \<open>
  C5, as the code has it. Resolving the exact value \<open>axis[i]\<close> returns an index
  that holds the same value; it is \<open>i\<close> when no other index holds that value.
\<close>

theorem resolve_axis_value:
  assumes "i < length ws"
    "is_argsort (abs_diff ws (ws ! i)) (np_argsort E (abs_diff ws (ws ! i)))"
  shows "\<exists>j<length ws. nearest E (Some ws) (ws ! i) = Inr (int j) \<and> ws ! j = ws ! i \<and>
           ((\<forall>k<length ws. k \<noteq> i \<longrightarrow> ws ! k \<noteq> ws ! i) \<longrightarrow> j = i)"
proof -
  have ne: "ws \<noteq> []" using assms(1) by auto
  obtain j where j: "j < length ws" "nearest E (Some ws) (ws ! i) = Inr (int j)"
    "\<forall>k<length ws. \<bar>ws ! j - ws ! i\<bar> \<le> \<bar>ws ! k - ws ! i\<bar>"
    using nearest_minimal [OF assms(2) ne] by blast
  have "\<bar>ws ! j - ws ! i\<bar> \<le> \<bar>ws ! i - ws ! i\<bar>"
    using j(3) assms(1) by blast
  then have e: "ws ! j = ws ! i" by simp
  then have "(\<forall>k<length ws. k \<noteq> i \<longrightarrow> ws ! k \<noteq> ws ! i) \<longrightarrow> j = i"
    using j(1) by blast
  then show ?thesis using j(1,2) e by blast
qed

theorem resolve_axis_value_witness:
  "(2::nat) < length [1, 2, 3 :: real] \<and>
   is_argsort (abs_diff [1, 2, 3] ([1, 2, 3] ! 2))
     (np_argsort numpy_ext (abs_diff [1, 2, 3] ([1, 2, 3] ! 2))) \<and>
   nearest numpy_ext (Some [1, 2, 3]) ([1, 2, 3] ! 2) = Inr 2"
proof -
  have srt: "np_argsort numpy_ext (abs_diff [1, 2, 3] ([1, 2, 3] ! 2)) = [2, 1, 0]"
    unfolding numpy_ext_def ext.simps by code_simp
  have a: "is_argsort (abs_diff [1, 2, 3] ([1, 2, 3] ! 2))
     (np_argsort numpy_ext (abs_diff [1, 2, 3] ([1, 2, 3] ! 2)))"
    unfolding srt by (simp add: is_argsort_def abs_diff_def)
  have l: "(2::nat) < length [1, 2, 3 :: real]" by simp
  have d: "\<forall>k<length [1, 2, 3 :: real]. k \<noteq> 2 \<longrightarrow> [1, 2, 3 :: real] ! k \<noteq> [1, 2, 3] ! 2"
    by (auto simp: less_Suc_eq numeral_3_eq_3)
  obtain j where "nearest numpy_ext (Some [1, 2, 3]) ([1, 2, 3] ! 2) = Inr (int j)" "j = 2"
    using resolve_axis_value [OF l a] d by blast
  then show ?thesis using a l by simp
qed

theorem resolve_duplicate_counterexample:
  "(1::nat) < length [1, 1 :: real] \<and>
   nearest numpy_ext (Some [1, 1]) ([1, 1] ! 1) = Inr 0"
proof -
  have srt: "np_argsort numpy_ext (abs_diff [1, 1] ([1, 1] ! 1)) = [0, 1]"
    unfolding numpy_ext_def ext.simps by code_simp
  show ?thesis
    unfolding nearest_def option.case srt by simp
qed

text \<open>
  C6. With a synced active viewer and single-viewer mode off, \<open>apply_to_viewers(i)\<close>
  draws slice \<open>i\<close> on every synced view of \<open>cube_views\<close> (once for each time the
  view is listed, fast or full by the slider flag), leaves the other widgets as they
  were and sets the synced index to \<open>i\<close>; otherwise it draws on the active view
  only and leaves the synced index. In both cases it emits one position-changed
  notification carrying \<open>i\<close>, and changes nothing else.
\<close>

theorem apply_to_viewers_fan_out:
  "(synced (widgets s (active_cube s)) \<and> \<not> single_viewer_mode s \<longrightarrow>
      apply_to_viewers s i =
        s\<lparr>synced_index := i,
          widgets := (\<lambda>v. (widgets s v)\<lparr>draws := draws (widgets s v) @
             (if synced (widgets s v)
              then replicate (count_list (cube_views s) v)
                     (if slider_flag s then FastDraw i else FullDraw i)
              else [])\<rparr>),
          emitted := emitted s @ [PositionChanged i]\<rparr>) \<and>
   (\<not> synced (widgets s (active_cube s)) \<or> single_viewer_mode s \<longrightarrow>
      apply_to_viewers s i =
        s\<lparr>widgets := (widgets s)(active_cube s := (widgets s (active_cube s))
             \<lparr>draws := draws (widgets s (active_cube s)) @
                [if slider_flag s then FastDraw i else FullDraw i]\<rparr>),
          emitted := emitted s @ [PositionChanged i]\<rparr>) \<and>
   emitted (apply_to_viewers s i) = emitted s @ [PositionChanged i]"
proof (intro conjI impI)
  assume "synced (widgets s (active_cube s)) \<and> \<not> single_viewer_mode s"
  then show "apply_to_viewers s i =
        s\<lparr>synced_index := i,
          widgets := (\<lambda>v. (widgets s v)\<lparr>draws := draws (widgets s v) @
             (if synced (widgets s v)
              then replicate (count_list (cube_views s) v)
                     (if slider_flag s then FastDraw i else FullDraw i)
              else [])\<rparr>),
          emitted := emitted s @ [PositionChanged i]\<rparr>"
    using apply_to_viewers_synced [of s i] by simp
next
  assume "\<not> synced (widgets s (active_cube s)) \<or> single_viewer_mode s"
  then have "\<not> (synced (widgets s (active_cube s)) \<and> \<not> single_viewer_mode s)"
    by blast
  then show "apply_to_viewers s i =
        s\<lparr>widgets := (widgets s)(active_cube s := (widgets s (active_cube s))
             \<lparr>draws := draws (widgets s (active_cube s)) @
                [if slider_flag s then FastDraw i else FullDraw i]\<rparr>),
          emitted := emitted s @ [PositionChanged i]\<rparr>"
    by (rule apply_to_viewers_single)
next
  obtain X W where "apply_to_viewers s i =
      s\<lparr>synced_index := X, widgets := W, emitted := emitted s @ [PositionChanged i]\<rparr>"
    using apply_to_viewers_frame by blast
  then show "emitted (apply_to_viewers s i) = emitted s @ [PositionChanged i]"
    by simp
qed

theorem apply_to_viewers_fan_out_witness:
  "synced_index (apply_to_viewers ex_state 2) = 2 \<and>
   draws (widgets (apply_to_viewers ex_state 2) 0) = [FullDraw 2] \<and>
   draws (widgets (apply_to_viewers ex_state 2) 1) = [FullDraw 2] \<and>
   draws (widgets (apply_to_viewers ex_state 2) 2) = [] \<and>
   emitted (apply_to_viewers ex_state 2) = [PositionChanged 2] \<and>
   synced_index (apply_to_viewers (ex_state\<lparr>single_viewer_mode := True\<rparr>) 2) = 1 \<and>
   draws (widgets (apply_to_viewers (ex_state\<lparr>single_viewer_mode := True\<rparr>) 2) 0) = [FullDraw 2] \<and>
   draws (widgets (apply_to_viewers (ex_state\<lparr>single_viewer_mode := True\<rparr>) 2) 1) = [] \<and>
   emitted (apply_to_viewers (ex_state\<lparr>single_viewer_mode := True\<rparr>) 2) = [PositionChanged 2]"
proof -
  have a: "synced (widgets ex_state (active_cube ex_state)) \<and> \<not> single_viewer_mode ex_state"
    by (simp add: ex_state_def)
  have b: "\<not> synced (widgets (ex_state\<lparr>single_viewer_mode := True\<rparr>)
              (active_cube (ex_state\<lparr>single_viewer_mode := True\<rparr>))) \<or>
           single_viewer_mode (ex_state\<lparr>single_viewer_mode := True\<rparr>)"
    by simp
  have c: "cube_views ex_state = [0, 1, 2]" "\<not> slider_flag ex_state"
    "emitted ex_state = []" "synced_index ex_state = 1" "active_cube ex_state = 0"
    "widgets ex_state = (\<lambda>v. \<lparr>synced = (v \<noteq> 2), draws = []\<rparr>)"
    by (simp_all add: ex_state_def)
  have one: "apply_to_viewers ex_state 2 =
        ex_state\<lparr>synced_index := 2,
          widgets := (\<lambda>v. (widgets ex_state v)\<lparr>draws := draws (widgets ex_state v) @
             (if synced (widgets ex_state v)
              then replicate (count_list (cube_views ex_state) v)
                     (if slider_flag ex_state then FastDraw 2 else FullDraw 2)
              else [])\<rparr>),
          emitted := emitted ex_state @ [PositionChanged 2]\<rparr>"
    using apply_to_viewers_fan_out [of ex_state 2] a by blast
  have two: "apply_to_viewers (ex_state\<lparr>single_viewer_mode := True\<rparr>) 2 =
        (ex_state\<lparr>single_viewer_mode := True\<rparr>)\<lparr>widgets :=
            (widgets (ex_state\<lparr>single_viewer_mode := True\<rparr>))
              (active_cube (ex_state\<lparr>single_viewer_mode := True\<rparr>) :=
                 (widgets (ex_state\<lparr>single_viewer_mode := True\<rparr>)
                    (active_cube (ex_state\<lparr>single_viewer_mode := True\<rparr>)))
             \<lparr>draws := draws (widgets (ex_state\<lparr>single_viewer_mode := True\<rparr>)
                    (active_cube (ex_state\<lparr>single_viewer_mode := True\<rparr>))) @
                [if slider_flag (ex_state\<lparr>single_viewer_mode := True\<rparr>)
                 then FastDraw 2 else FullDraw 2]\<rparr>),
          emitted := emitted (ex_state\<lparr>single_viewer_mode := True\<rparr>) @ [PositionChanged 2]\<rparr>"
    using apply_to_viewers_fan_out [of "ex_state\<lparr>single_viewer_mode := True\<rparr>" 2] b by blast
  show ?thesis
    unfolding one two by (simp add: c)
qed

text \<open>
  C7. When the slice text box holds a text that parses as the integer \<open>n\<close>,
  \<open>_on_text_slice_change\<close> sets the slider to \<open>0\<close> if \<open>n < 0\<close>, to
  \<open>len(axis) - 1\<close> if \<open>n > len(axis) - 1\<close>, and to \<open>n\<close> otherwise: it calls
  \<open>setValue\<close> with that index, returns normally, and the slider holds it afterwards.
\<close>

theorem on_text_slice_change_clamps:
  assumes "axis_bound s" "wavelengths s = Some ws" "argsort_total E"
    "py_int (slice_text s) = Some n"
  shows "on_text_slice_change E s =
           slider_setValue E (s\<lparr>slice_style := []\<rparr>)
             (if n < 0 then 0 else if n > int (length ws) - 1 then int (length ws) - 1 else n) \<and>
         (\<exists>s'. on_text_slice_change E s = Inr s' \<and>
            sl_value s' =
              (if n < 0 then 0 else if n > int (length ws) - 1 then int (length ws) - 1 else n))"
  using on_text_slice_change_parsed [OF assms] by blast

theorem on_text_slice_change_clamps_witness:
  "axis_bound (ex_state\<lparr>slice_text := ''-4''\<rparr>) \<and>
   wavelengths (ex_state\<lparr>slice_text := ''-4''\<rparr>) = Some [1, 2, 3] \<and>
   argsort_total numpy_ext \<and>
   py_int (slice_text (ex_state\<lparr>slice_text := ''-4''\<rparr>)) = Some (- 4) \<and>
   py_int (slice_text (ex_state\<lparr>slice_text := ''7''\<rparr>)) = Some 7 \<and>
   py_int (slice_text (ex_state\<lparr>slice_text := ''2''\<rparr>)) = Some 2 \<and>
   (\<exists>s'. on_text_slice_change numpy_ext (ex_state\<lparr>slice_text := ''-4''\<rparr>) = Inr s' \<and>
         sl_value s' = 0) \<and>
   (\<exists>s'. on_text_slice_change numpy_ext (ex_state\<lparr>slice_text := ''7''\<rparr>) = Inr s' \<and>
         sl_value s' = 2) \<and>
   (\<exists>s'. on_text_slice_change numpy_ext (ex_state\<lparr>slice_text := ''2''\<rparr>) = Inr s' \<and>
         sl_value s' = 2)"
proof -
  have ab: "axis_bound (ex_state\<lparr>slice_text := t\<rparr>)" for t
    using axis_bound_ex by (simp add: axis_bound_def split: option.splits)
  have w: "wavelengths (ex_state\<lparr>slice_text := t\<rparr>) = Some [1, 2, 3]" for t
    by (simp add: ex_state_def)
  have p1: "py_int (slice_text (ex_state\<lparr>slice_text := ''-4''\<rparr>)) = Some (- 4)"
    by (simp add: py_int_eval)
  have p2: "py_int (slice_text (ex_state\<lparr>slice_text := ''7''\<rparr>)) = Some 7"
    by (simp add: py_int_eval)
  have p3: "py_int (slice_text (ex_state\<lparr>slice_text := ''2''\<rparr>)) = Some 2"
    by (simp add: py_int_eval)
  have r1: "\<exists>s'. on_text_slice_change numpy_ext (ex_state\<lparr>slice_text := ''-4''\<rparr>) = Inr s' \<and>
         sl_value s' = 0"
    using on_text_slice_change_clamps [OF ab w argsort_total_numpy p1, THEN conjunct2] by simp
  have r2: "\<exists>s'. on_text_slice_change numpy_ext (ex_state\<lparr>slice_text := ''7''\<rparr>) = Inr s' \<and>
         sl_value s' = 2"
    using on_text_slice_change_clamps [OF ab w argsort_total_numpy p2, THEN conjunct2] by simp
  have r3: "\<exists>s'. on_text_slice_change numpy_ext (ex_state\<lparr>slice_text := ''2''\<rparr>) = Inr s' \<and>
         sl_value s' = 2"
    using on_text_slice_change_clamps [OF ab w argsort_total_numpy p3, THEN conjunct2] by simp
  show ?thesis
    using ab w argsort_total_numpy p1 p2 p3 r1 r2 r3 by blast
qed

text \<open>
  C8. A text that does not parse, in either text box, makes the handler set the
  error style of that box and return, with the rest of the state as it was. A text
  that parses clears the style of its box (the handler then goes on to the slider
  and returns normally).
\<close>

theorem invalid_text_marks_field_only:
  "(py_int (slice_text s) = None \<longrightarrow>
      on_text_slice_change E s = Inr (s\<lparr>slice_style := RED_BACKGROUND\<rparr>)) \<and>
   (py_float E (wl_text s) = None \<longrightarrow>
      on_text_wavelength_change E s None = Inr (s\<lparr>wl_style := RED_BACKGROUND\<rparr>)) \<and>
   (axis_bound s \<and> argsort_total E \<longrightarrow>
      (py_int (slice_text s) \<noteq> None \<longrightarrow>
         (\<exists>s'. on_text_slice_change E s = Inr s' \<and> slice_style s' = [])) \<and>
      (py_float E (wl_text s) \<noteq> None \<longrightarrow>
         (\<exists>s'. on_text_wavelength_change E s None = Inr s' \<and> wl_style s' = [])))"
proof (intro conjI impI)
  assume "py_int (slice_text s) = None"
  then show "on_text_slice_change E s = Inr (s\<lparr>slice_style := RED_BACKGROUND\<rparr>)"
    by (simp add: on_text_slice_change_def)
next
  assume "py_float E (wl_text s) = None"
  then show "on_text_wavelength_change E s None = Inr (s\<lparr>wl_style := RED_BACKGROUND\<rparr>)"
    by (simp add: on_text_wavelength_change_def)
next
  assume a: "axis_bound s \<and> argsort_total E" and p: "py_int (slice_text s) \<noteq> None"
  from a obtain ws where ax: "wavelengths s = Some ws"
    by (auto simp: axis_bound_def split: option.splits)
  from p obtain n where "py_int (slice_text s) = Some n" by blast
  then show "\<exists>s'. on_text_slice_change E s = Inr s' \<and> slice_style s' = []"
    using on_text_slice_change_parsed(2) [of s ws E n] a ax by blast
next
  assume a: "axis_bound s \<and> argsort_total E" and p: "py_float E (wl_text s) \<noteq> None"
  from a obtain ws where ax: "wavelengths s = Some ws"
    by (auto simp: axis_bound_def split: option.splits)
  from p obtain w where "py_float E (wl_text s) = Some w" by blast
  then show "\<exists>s'. on_text_wavelength_change E s None = Inr s' \<and> wl_style s' = []"
    using on_text_wavelength_change_parsed [of s ws E w] a ax by blast
qed

theorem invalid_text_marks_field_only_witness:
  "py_int (slice_text (ex_state\<lparr>slice_text := ''abc''\<rparr>)) = None \<and>
   on_text_slice_change numpy_ext (ex_state\<lparr>slice_text := ''abc''\<rparr>) =
     Inr (ex_state\<lparr>slice_text := ''abc'', slice_style := RED_BACKGROUND\<rparr>) \<and>
   py_float numpy_ext (wl_text (ex_state\<lparr>wl_text := ''abc''\<rparr>)) = None \<and>
   on_text_wavelength_change numpy_ext (ex_state\<lparr>wl_text := ''abc''\<rparr>) None =
     Inr (ex_state\<lparr>wl_text := ''abc'', wl_style := RED_BACKGROUND\<rparr>) \<and>
   axis_bound (ex_state\<lparr>slice_style := RED_BACKGROUND, wl_style := RED_BACKGROUND\<rparr>) \<and>
   argsort_total numpy_ext \<and>
   py_int (slice_text (ex_state\<lparr>slice_style := RED_BACKGROUND, wl_style := RED_BACKGROUND\<rparr>)) = Some 1 \<and>
   py_float numpy_ext (wl_text (ex_state\<lparr>slice_style := RED_BACKGROUND, wl_style := RED_BACKGROUND\<rparr>)) = Some 2 \<and>
   (\<exists>s'. on_text_slice_change numpy_ext
            (ex_state\<lparr>slice_style := RED_BACKGROUND, wl_style := RED_BACKGROUND\<rparr>) = Inr s' \<and>
         slice_style s' = []) \<and>
   (\<exists>s'. on_text_wavelength_change numpy_ext
            (ex_state\<lparr>slice_style := RED_BACKGROUND, wl_style := RED_BACKGROUND\<rparr>) None = Inr s' \<and>
         wl_style s' = [])"
proof -
  let ?r = "ex_state\<lparr>slice_style := RED_BACKGROUND, wl_style := RED_BACKGROUND\<rparr>"
  have p1: "py_int (slice_text (ex_state\<lparr>slice_text := ''abc''\<rparr>)) = None"
    by (simp add: py_int_eval)
  have p2: "py_float numpy_ext (wl_text (ex_state\<lparr>wl_text := ''abc''\<rparr>)) = None"
    by (simp add: numpy_ext_def demo_float_def)
  have ab: "axis_bound ?r"
    using axis_bound_ex by (simp add: axis_bound_def split: option.splits)
  have p3: "py_int (slice_text ?r) = Some 1"
    by (simp add: ex_state_def py_int_eval)
  have p4: "py_float numpy_ext (wl_text ?r) = Some 2"
    by (simp add: ex_state_def numpy_ext_def demo_float_def)
  show ?thesis
    using invalid_text_marks_field_only [of "ex_state\<lparr>slice_text := ''abc''\<rparr>" numpy_ext]
      invalid_text_marks_field_only [of "ex_state\<lparr>wl_text := ''abc''\<rparr>" numpy_ext]
      invalid_text_marks_field_only [of ?r numpy_ext]
      p1 p2 p3 p4 ab argsort_total_numpy
    by simp
qed

text \<open>
  C9. In \<open>_on_text_slice_change\<close> the guard \<open>index == self._slice_textbox.text()\<close>
  compares an int with a str and is never true, so a text that parses always goes
  on to the clamp and to \<open>setValue\<close>.
\<close>

theorem slice_guard_never_true:
  "py_eq (PyInt n) (PyStr t) = False \<and>
   (py_int (slice_text s) = Some n \<longrightarrow>
      on_text_slice_change E s =
        (case py_len (wavelengths s) of
           Inl e \<Rightarrow> Inl e
         | Inr m \<Rightarrow>
             slider_setValue E (s\<lparr>slice_style := []\<rparr>)
               (if (if n < 0 then 0 else n) > m - 1 then m - 1
                else (if n < 0 then 0 else n))))"
  by (simp add: on_text_slice_change_def Let_def split: sum.splits)

theorem slice_guard_never_true_witness:
  "py_int (slice_text (ex_state\<lparr>slice_text := ''7''\<rparr>)) = Some 7 \<and>
   on_text_slice_change numpy_ext (ex_state\<lparr>slice_text := ''7''\<rparr>) =
     slider_setValue numpy_ext (ex_state\<lparr>slice_text := ''7'', slice_style := []\<rparr>) 2"
proof -
  have p: "py_int (slice_text (ex_state\<lparr>slice_text := ''7''\<rparr>)) = Some 7"
    by (simp add: py_int_eval)
  have w: "py_len (wavelengths (ex_state\<lparr>slice_text := ''7''\<rparr>)) = Inr 3"
    by (simp add: py_len_def ex_state_def)
  show ?thesis
    using slice_guard_never_true [of 7 "''7''" "ex_state\<lparr>slice_text := ''7''\<rparr>" numpy_ext] p w
    by simp
qed

text \<open>
  C10. \<open>change_slider_value(amount)\<close> emits, last, a position-changed notification
  whose position is the slider's previous value plus \<open>amount\<close>, not bounded, while
  the slider itself ends at that sum bounded by its range; so the emitted position
  lies outside \<open>[0, len(axis) - 1]\<close> whenever the sum does.
\<close>

theorem change_slider_value_unbounded:
  assumes "axis_bound s" "wavelengths s = Some ws" "argsort_total E"
  shows "\<exists>s'. change_slider_value E s amount = Inr s' \<and>
           last (emitted s') = PositionChanged (sl_value s + amount) \<and>
           sl_value s' = max 0 (min (int (length ws) - 1) (sl_value s + amount)) \<and>
           0 \<le> sl_value s' \<and> sl_value s' \<le> int (length ws) - 1"
proof -
  have ne: "ws \<noteq> []" using assms(1,2) by (simp add: axis_bound_def)
  obtain s1 where s1: "slider_setValue E s (sl_value s + amount) = Inr s1"
    and v1: "sl_value s1 = max 0 (min (int (length ws) - 1) (sl_value s + amount))"
    using slider_setValue_facts [OF assms, of "sl_value s + amount"] by blast
  have "change_slider_value E s amount = Inr (emit s1 (PositionChanged (sl_value s + amount)))"
    using s1 by (simp add: change_slider_value_def Let_def)
  then show ?thesis
    using v1 ne by (auto simp: emit_def)
qed

theorem change_slider_value_unbounded_witness:
  "axis_bound ex_state \<and> wavelengths ex_state = Some [1, 2, 3] \<and> argsort_total numpy_ext \<and>
   sl_value ex_state + 5 = 6 \<and> int (length [1, 2, 3 :: real]) - 1 < 6 \<and>
   (\<exists>s'. change_slider_value numpy_ext ex_state 5 = Inr s' \<and>
         last (emitted s') = PositionChanged 6 \<and> sl_value s' = 2)"
proof -
  have w: "wavelengths ex_state = Some [1, 2, 3]" and v: "sl_value ex_state = 1"
    by (simp_all add: ex_state_def)
  show ?thesis
    using change_slider_value_unbounded [OF axis_bound_ex w argsort_total_numpy, of 5]
      axis_bound_ex argsort_total_numpy w v
    by auto
qed

end
